theory Spec2Isabelle
  imports
    Complex_Main
    "HOL-Library.Multiset"
    "HOL-Library.Char_ord"
    "HOL-Library.List_Lexorder"
    "HOL-Library.Product_Lexorder"
    "HOL-Library.AList"
begin

section \<open>Data model\<close>

text \<open>
  A spreadsheet cell as pandas hands it to the program: Python's \<open>None\<close>, the Python
  float NaN (an empty cell), the other missing markers of pandas and numpy (\<open>pd.NaT\<close>,
  the missing value of a column of dates; \<open>pd.NA\<close>; a NaN of type \<open>np.float32\<close>, which
  is not a Python float), a text, a number or a timestamp. A number is a real and a
  timestamp an integer (nanoseconds). A \<open>string\<close> is a list of code points below 256.
\<close>

datatype cell = PyNone | NaN | NaT | PdNA | NaN32 | Str string | Num real | Time int

text \<open>
  What the program takes from Python and pandas without defining it. They are
  parameters of the model; every theorem holds for all of them.
  \<^item> \<open>str_of\<close>: \<open>str()\<close> of a number or a timestamp.
  \<^item> \<open>to_datetime\<close>: \<open>pd.to_datetime(..., format=DATE_FORMAT, errors="coerce")\<close> on one
    element; \<open>None\<close> is the missing value it coerces to.
  \<^item> \<open>to_numeric\<close>: \<open>pd.to_numeric(..., errors="coerce")\<close> on a column. What it returns
    depends on the type pandas gave the whole column when it read the sheet (a date in
    a column of dates becomes a number, the same date in a mixed column NaN), so it is
    given the column as read and, for each of its rows, whether the row is still in the
    table; it returns one value per remaining row, \<open>None\<close> for the missing value it
    coerces to.
  \<^item> \<open>header_labels\<close>: the labels \<open>pd.read_excel(header=h)\<close> makes of the cells of row
    \<open>h\<close>.
  \<^item> \<open>series_mean\<close>, \<open>series_std\<close>, \<open>series_sub\<close>, \<open>series_div\<close>: \<open>x.mean()\<close>, \<open>x.std()\<close>,
    \<open>x - m\<close> and \<open>d / s\<close> on the series \<open>x\<close> of one group, in floating-point arithmetic or
    on timestamps as pandas does them. Each is given the whole column the group is cut
    from (its type decides what pandas does) and the values of the group; \<open>None\<close> is an
    exception raised by pandas.
\<close>

record lib =
  str_of :: "cell \<Rightarrow> string"
  to_datetime :: "cell \<Rightarrow> int option"
  to_numeric :: "cell list \<Rightarrow> bool list \<Rightarrow> real option list"
  header_labels :: "cell list \<Rightarrow> cell list"
  series_mean :: "cell list \<Rightarrow> cell list \<Rightarrow> cell option"
  series_std :: "cell list \<Rightarrow> cell list \<Rightarrow> cell option"
  series_sub :: "cell list \<Rightarrow> cell list \<Rightarrow> cell \<Rightarrow> cell list option"
  series_div :: "cell list \<Rightarrow> cell list \<Rightarrow> cell \<Rightarrow> cell list option"

text \<open>
  The errors the program can end with. The two \<open>ValueError\<close>s of \<open>prep_data.py\<close> carry
  what their messages are formatted from: sheet name, file and (for the first) the first
  and last scanned row. \<open>PandasError\<close> stands for an exception raised inside pandas.
\<close>

datatype error =
    HeaderNotFound string string int int
  | SchemaError string string
  | PandasError string

type_synonym sheet = "cell list list"
type_synonym workbook = "(string \<times> sheet) list"

text \<open>The table \<open>pd.read_excel(header=h)\<close> returns: column labels and data rows.\<close>

record raw_frame =
  labels :: "cell list"
  body :: "cell list list"

text \<open>
  A firm table: indexed by date, the value columns in \<open>fcols\<close>; a row is its date and
  its cells by column name.
\<close>

record firm_table =
  fcols :: "string list"
  frows :: "(int \<times> (string \<times> cell) list) list"

text \<open>A panel: indexed by (firm, date).\<close>

record panel =
  pcols :: "string list"
  prows :: "((string \<times> int) \<times> (string \<times> cell) list) list"

section \<open>config.py\<close>

definition WORKSHEET_NAME :: string where
  "WORKSHEET_NAME = ''Worksheet''"

definition HEADER_SCAN_START_ROW :: nat where
  "HEADER_SCAN_START_ROW = 2000"

definition HEADER_SCAN_MAX_ROWS :: nat where
  "HEADER_SCAN_MAX_ROWS = 3000"

definition EXPECTED_HEADERS :: "string list" where
  "EXPECTED_HEADERS =
     [''date'',
      ''rendite_1_quartal'',
      ''volatility 260 day calc'',
      ''return on common equity'',
      ''price to book ratio'',
      ''book to market ratio'',
      ''bloomberg_esg'',
      ''refinitiv_esg'',
      ''rendite_2_quartal'']"

section \<open>prep_data.py: \<open>_norm\<close>\<close>

text \<open>
  \<open>str.isspace\<close> on code points below 256; \<open>str.strip()\<close> and the class \<open>\s\<close> of
  \<open>re\<close> both use it.
\<close>

definition is_space :: "char \<Rightarrow> bool" where
  "is_space c = (of_char c \<in> set [9, 10, 11, 12, 13, 28, 29, 30, 31, 32, 133, 160 :: nat])"

text \<open>\<open>str.lower()\<close> on code points below 256: A-Z and the Latin-1 capitals.\<close>

definition lower_char :: "char \<Rightarrow> char" where
  "lower_char c =
     (let n = (of_char c :: nat)
      in if (65 \<le> n \<and> n \<le> 90) \<or> (192 \<le> n \<and> n \<le> 214) \<or> (216 \<le> n \<and> n \<le> 222)
         then char_of (n + 32) else c)"

definition str_lower :: "string \<Rightarrow> string" where
  "str_lower s = map lower_char s"

definition str_strip :: "string \<Rightarrow> string" where
  "str_strip s = rev (dropWhile is_space (rev (dropWhile is_space s)))"

text \<open>\<open>re.sub(r"\s+", " ", s)\<close>: every maximal run of whitespace becomes one space.\<close>

function re_sub_ws :: "string \<Rightarrow> string" where
  "re_sub_ws [] = []"
| "re_sub_ws (c # cs) =
     (if is_space c then CHR '' '' # re_sub_ws (dropWhile is_space cs) else c # re_sub_ws cs)"
  by pat_completeness auto
termination
  by (relation "measure length") (auto simp: length_dropWhile_le less_Suc_eq_le)

text \<open>\<open>s.replace("\n", " ")\<close>\<close>

definition replace_nl :: "string \<Rightarrow> string" where
  "replace_nl s = map (\<lambda>c. if c = CHR 0x0A then CHR '' '' else c) s"

definition norm_str :: "string \<Rightarrow> string" where
  "norm_str s = str_strip (replace_nl (re_sub_ws (str_lower (str_strip s))))"

text \<open>
  Only \<open>None\<close> and a Python float that is NaN return the empty token. Every other value
  goes through \<open>str()\<close>, which gives \<open>NaT\<close> for \<open>pd.NaT\<close>, \<open><NA>\<close> for \<open>pd.NA\<close> and
  \<open>nan\<close> for a NaN of type \<open>np.float32\<close>.
\<close>

fun norm_header :: "lib \<Rightarrow> cell \<Rightarrow> string" where
  "norm_header X PyNone = []"
| "norm_header X NaN = []"
| "norm_header X (Str s) = norm_str s"
| "norm_header X NaT = norm_str ''NaT''"
| "norm_header X PdNA = norm_str ''<NA>''"
| "norm_header X NaN32 = norm_str ''nan''"
| "norm_header X c = norm_str (str_of X c)"

text \<open>
  The spec's words for a token, to compare \<open>_norm\<close> with: the words of the text
  (\<open>str.split()\<close>), lower-cased, joined by single spaces.
\<close>

function split_ws :: "string \<Rightarrow> string list" where
  "split_ws s =
     (let s' = dropWhile is_space s
      in if s' = [] then []
         else takeWhile (\<lambda>c. \<not> is_space c) s' # split_ws (dropWhile (\<lambda>c. \<not> is_space c) s'))"
  by pat_completeness auto
termination
proof (relation "measure length", simp, goal_cases)
  case (1 s x)
  have "length (dropWhile (\<lambda>c. \<not> is_space c) x) < length x"
  proof (cases x)
    case Nil
    with 1 show ?thesis by simp
  next
    case (Cons a as)
    with 1 have "\<not> is_space a"
      by (metis hd_dropWhile list.sel(1))
    with Cons show ?thesis
      by (simp add: length_dropWhile_le less_Suc_eq_le)
  qed
  also have "length x \<le> length s"
    using 1 by (simp add: length_dropWhile_le)
  finally show ?case by simp
qed

fun join_sp :: "string list \<Rightarrow> string" where
  "join_sp [] = []"
| "join_sp [w] = w"
| "join_sp (w # ws) = w @ CHR '' '' # join_sp ws"

section \<open>prep_data.py: \<open>find_header_row\<close>\<close>

text \<open>
  \<open>pd.read_excel(header=None, skiprows=start_row, nrows=max_scan_rows)\<close>: the block of
  at most \<open>max_scan_rows\<close> rows from row \<open>start_row\<close> on, cells as they are. A sheet the
  workbook does not have makes pandas raise.
\<close>

definition read_excel_block :: "workbook \<Rightarrow> string \<Rightarrow> nat \<Rightarrow> nat \<Rightarrow> error + sheet" where
  "read_excel_block wb sheet_name start_row max_scan_rows =
     (case map_of wb sheet_name of
        None \<Rightarrow> Inl (PandasError ''Worksheet not found'')
      | Some rows \<Rightarrow> Inr (take max_scan_rows (drop start_row rows)))"

definition expected :: "lib \<Rightarrow> string list" where
  "expected X = remdups (map (\<lambda>h. norm_header X (Str h)) EXPECTED_HEADERS)"

text \<open>The test of one row: \<open>("date" in row_set) and (hits >= 7)\<close>.\<close>

definition row_matches :: "lib \<Rightarrow> cell list \<Rightarrow> bool" where
  "row_matches X row =
     (let row_vals = map (norm_header X) row;
          hits = length (filter (\<lambda>h. h \<in> set row_vals) (expected X))
      in ''date'' \<in> set row_vals \<and> 7 \<le> hits)"

text \<open>The loop \<open>for i in range(len(chunk))\<close>, from index \<open>i\<close> on.\<close>

fun scan_rows :: "lib \<Rightarrow> nat \<Rightarrow> sheet \<Rightarrow> nat option" where
  "scan_rows X i [] = None"
| "scan_rows X i (row # rows) = (if row_matches X row then Some i else scan_rows X (Suc i) rows)"

definition find_header_row :: "lib \<Rightarrow> workbook \<Rightarrow> string \<Rightarrow> string \<Rightarrow> nat \<Rightarrow> nat \<Rightarrow> error + nat" where
  "find_header_row X wb file_path sheet_name start_row max_scan_rows =
     (case read_excel_block wb sheet_name start_row max_scan_rows of
        Inl e \<Rightarrow> Inl e
      | Inr chunk \<Rightarrow>
          (case scan_rows X 0 chunk of
             Some i \<Rightarrow> Inr (start_row + i)
           | None \<Rightarrow>
               Inl (HeaderNotFound sheet_name file_path (int start_row)
                      (int start_row + int max_scan_rows - 1))))"

text \<open>
  The spec's words for a qualifying row: its set of tokens contains "date" and at least
  7 of the expected-schema tokens.
\<close>

definition qualifies :: "lib \<Rightarrow> cell list \<Rightarrow> bool" where
  "qualifies X row \<longleftrightarrow>
     ''date'' \<in> norm_header X ` set row \<and>
     7 \<le> card (norm_header X ` set row \<inter> set EXPECTED_HEADERS)"

section \<open>prep_data.py: \<open>read_firm_sheet\<close>\<close>

text \<open>\<open>pd.read_excel(header=hdr)\<close>: row \<open>hdr\<close> gives the labels, the rows below it the data.\<close>

definition read_excel_table :: "lib \<Rightarrow> workbook \<Rightarrow> string \<Rightarrow> nat \<Rightarrow> error + raw_frame" where
  "read_excel_table X wb sheet_name hdr =
     (case map_of wb sheet_name of
        None \<Rightarrow> Inl (PandasError ''Worksheet not found'')
      | Some rows \<Rightarrow>
          if hdr < length rows
          then Inr \<lparr>labels = header_labels X (rows ! hdr), body = drop (Suc hdr) rows\<rparr>
          else Inl (PandasError ''header row out of range''))"

text \<open>The cell of a data row in column \<open>j\<close>; pandas pads a short row with NaN.\<close>

definition cell_at :: "cell list \<Rightarrow> nat \<Rightarrow> cell" where
  "cell_at row j = (if j < length row then row ! j else NaN)"

text \<open>The position of the first column labelled \<open>c\<close>.\<close>

definition col_index :: "string list \<Rightarrow> string \<Rightarrow> nat" where
  "col_index cols c = length (takeWhile (\<lambda>x. x \<noteq> c) cols)"

text \<open>A value of a table by column name; a column the row does not have reads as NaN.\<close>

definition cell_of :: "(string \<times> cell) list \<Rightarrow> string \<Rightarrow> cell" where
  "cell_of vs c = (case map_of vs c of Some v \<Rightarrow> v | None \<Rightarrow> NaN)"

text \<open>The cells of column \<open>j\<close> of the data rows, as read.\<close>

definition raw_column :: "cell list list \<Rightarrow> nat \<Rightarrow> cell list" where
  "raw_column rows j = map (\<lambda>r. cell_at r j) rows"

text \<open>
  \<open>pd.to_numeric(df[c], errors="coerce")\<close> on the column \<open>col\<close> of the rows that are left:
  a number where pandas gives one, NaN where it coerces.
\<close>

definition coerce_numeric :: "lib \<Rightarrow> cell list \<Rightarrow> bool list \<Rightarrow> cell list" where
  "coerce_numeric X col kept =
     map (\<lambda>v. case v of Some x \<Rightarrow> Num x | None \<Rightarrow> NaN) (to_numeric X col kept)"

text \<open>
  Lines 78 to 93, on the table just read. With \<open>cols\<close> the normalised labels, \<open>df[keep]\<close>
  selects every column whose label is in \<open>keep\<close>; when a kept label occurs twice,
  \<open>df[c]\<close> is a table and \<open>pd.to_datetime\<close> or \<open>pd.to_numeric\<close> raises. Rows whose date
  did not parse are dropped, then the other columns are coerced, then the rows are
  sorted by date. Rows with the same date stay in the order of the sheet here; pandas
  does not promise an order for them, and no theorem depends on it.
\<close>

definition dated_rows :: "lib \<Rightarrow> nat \<Rightarrow> cell list list \<Rightarrow> (int \<times> cell list) list" where
  "dated_rows X di rows =
     List.map_filter (\<lambda>r. map_option (\<lambda>t. (t, r)) (to_datetime X (cell_at r di))) rows"

text \<open>For each data row, whether its date parsed: \<open>df["date"].notna()\<close>.\<close>

definition date_mask :: "lib \<Rightarrow> nat \<Rightarrow> cell list list \<Rightarrow> bool list" where
  "date_mask X di rows = map (\<lambda>r. to_datetime X (cell_at r di) \<noteq> None) rows"

text \<open>The coerced cells of the \<open>i\<close>-th row that is left, by column.\<close>

definition numeric_row ::
  "lib \<Rightarrow> raw_frame \<Rightarrow> string list \<Rightarrow> string list \<Rightarrow> bool list \<Rightarrow> nat \<Rightarrow> (string \<times> cell) list" where
  "numeric_row X df cols vcols kept i =
     map (\<lambda>c. (c, cell_at (coerce_numeric X (raw_column (body df) (col_index cols c)) kept) i))
       vcols"

definition clean_frame :: "lib \<Rightarrow> string \<Rightarrow> string \<Rightarrow> raw_frame \<Rightarrow> error + firm_table" where
  "clean_frame X file_path sheet_name df =
     (let cols = map (norm_header X) (labels df);
          keep = filter (\<lambda>c. c \<in> set cols) EXPECTED_HEADERS
      in if ''date'' \<notin> set keep then Inl (SchemaError sheet_name file_path)
         else if \<exists>c\<in>set keep. 1 < count_list cols c
         then Inl (PandasError ''duplicate column label'')
         else
           let vcols = filter (\<lambda>c. c \<noteq> ''date'') keep;
               dated = dated_rows X (col_index cols ''date'') (body df);
               kept = date_mask X (col_index cols ''date'') (body df);
               rows = map (\<lambda>i. (fst (dated ! i), numeric_row X df cols vcols kept i))
                        [0..<length dated]
           in Inr \<lparr>fcols = vcols, frows = sort_key fst rows\<rparr>)"

definition read_firm_sheet ::
  "lib \<Rightarrow> workbook \<Rightarrow> string \<Rightarrow> string \<Rightarrow> nat \<Rightarrow> nat \<Rightarrow> error + firm_table" where
  "read_firm_sheet X wb file_path sheet_name start_row max_scan_rows =
     (case find_header_row X wb file_path sheet_name start_row max_scan_rows of
        Inl e \<Rightarrow> Inl e
      | Inr hdr \<Rightarrow>
          (case read_excel_table X wb sheet_name hdr of
             Inl e \<Rightarrow> Inl e
           | Inr df \<Rightarrow> clean_frame X file_path sheet_name df))"

section \<open>prep_data.py: \<open>list_firm_sheets\<close> and \<open>build_panel\<close>\<close>

definition list_firm_sheets :: "workbook \<Rightarrow> string list" where
  "list_firm_sheets wb = filter (\<lambda>s. s \<noteq> WORKSHEET_NAME) (map fst wb)"

text \<open>
  One firm's frame as appended to \<open>frames\<close>: the columns \<open>firm\<close> and \<open>sector\<close> added and
  the date back among the columns; \<open>firm\<close> and \<open>date\<close> are kept here as the key of the row.
\<close>

definition tag_frame :: "string \<Rightarrow> string \<Rightarrow> firm_table \<Rightarrow> panel" where
  "tag_frame firm sector_label ft =
     \<lparr>pcols = fcols ft @ [''sector''],
      prows = map (\<lambda>(t, vs). ((firm, t), vs @ [(''sector'', Str sector_label)])) (frows ft)\<rparr>"

text \<open>The loop of \<open>build_panel\<close>: the first sheet that fails ends it.\<close>

fun read_frames :: "lib \<Rightarrow> workbook \<Rightarrow> string \<Rightarrow> string \<Rightarrow> string list \<Rightarrow> error + panel list" where
  "read_frames X wb xlsx_path sector_label [] = Inr []"
| "read_frames X wb xlsx_path sector_label (firm # firms) =
     (case read_firm_sheet X wb xlsx_path firm HEADER_SCAN_START_ROW HEADER_SCAN_MAX_ROWS of
        Inl e \<Rightarrow> Inl e
      | Inr df_firm \<Rightarrow>
          (case read_frames X wb xlsx_path sector_label firms of
             Inl e \<Rightarrow> Inl e
           | Inr frames \<Rightarrow> Inr (tag_frame firm sector_label df_firm # frames)))"

text \<open>The columns of \<open>pd.concat\<close>: the union, in the order of first appearance.\<close>

fun union_cols :: "string list \<Rightarrow> string list list \<Rightarrow> string list" where
  "union_cols acc [] = acc"
| "union_cols acc (cs # css) = union_cols (acc @ filter (\<lambda>c. c \<notin> set acc) (remdups cs)) css"

text \<open>
  \<open>pd.concat(frames, ignore_index=True)\<close>: the rows stacked, a column a frame does not
  have filled with NaN; an empty list of frames makes pandas raise.
\<close>

definition concat_frames :: "panel list \<Rightarrow> error + panel" where
  "concat_frames frames =
     (if frames = [] then Inl (PandasError ''No objects to concatenate'')
      else
        let cols = union_cols [] (map pcols frames)
        in Inr \<lparr>pcols = cols,
                prows = concat (map (\<lambda>f. map (\<lambda>(k, vs). (k, map (\<lambda>c. (c, cell_of vs c)) cols))
                                              (prows f)) frames)\<rparr>)"

definition build_panel :: "lib \<Rightarrow> workbook \<Rightarrow> string \<Rightarrow> string \<Rightarrow> error + panel" where
  "build_panel X wb xlsx_path sector_label =
     (case read_frames X wb xlsx_path sector_label (list_firm_sheets wb) of
        Inl e \<Rightarrow> Inl e
      | Inr frames \<Rightarrow>
          (case concat_frames frames of
             Inl e \<Rightarrow> Inl e
           | Inr panel \<Rightarrow> Inr (panel\<lparr>prows := sort_key fst (prows panel)\<rparr>)))"

section \<open>prep_data.py: \<open>add_esg_zscores\<close>\<close>

definition isna :: "cell \<Rightarrow> bool" where
  "isna c \<longleftrightarrow> c = NaN \<or> c = PyNone \<or> c = NaT \<or> c = PdNA \<or> c = NaN32"

definition column :: "panel \<Rightarrow> string \<Rightarrow> cell list" where
  "column df c = map (\<lambda>(k, vs). cell_of vs c) (prows df)"

text \<open>
  \<open>lambda x: (x - x.mean()) / x.std()\<close> on the series \<open>x\<close> of one group of the column
  \<open>col\<close>: the mean, the difference, the deviation, the quotient, in this order; an
  exception of any of them ends it.
\<close>

definition zscore :: "lib \<Rightarrow> cell list \<Rightarrow> cell list \<Rightarrow> cell list option" where
  "zscore X col x =
     (case series_mean X col x of
        None \<Rightarrow> None
      | Some m \<Rightarrow>
          (case series_sub X col x m of
             None \<Rightarrow> None
           | Some d \<Rightarrow>
               (case series_std X col x of
                  None \<Rightarrow> None
                | Some s \<Rightarrow> series_div X col d s)))"

text \<open>
  \<open>groupby(...)[col].transform(f)\<close>: \<open>f\<close> is applied to the rows of each key, and row \<open>i\<close>
  gets the value \<open>f\<close> gives it within the rows that have its key; a row whose key is
  missing is in no group and gets NaN. When \<open>f\<close> raises for a group, or returns a series
  of another length than the group, pandas raises.
\<close>

definition group_rows :: "cell list \<Rightarrow> nat \<Rightarrow> nat \<Rightarrow> nat list" where
  "group_rows keys n i = filter (\<lambda>j. keys ! j = keys ! i) [0..<n]"

definition groupby_transform ::
  "(cell list \<Rightarrow> cell list option) \<Rightarrow> cell list \<Rightarrow> cell list \<Rightarrow> cell list option" where
  "groupby_transform f keys xs =
     (let n = length xs;
          result = (\<lambda>i. f (map (\<lambda>j. xs ! j) (group_rows keys n i)))
      in if \<forall>i\<in>set [0..<n]. isna (keys ! i) \<or>
              (case result i of
                 Some ys \<Rightarrow> length ys = length (group_rows keys n i)
               | None \<Rightarrow> False)
         then Some (map (\<lambda>i. if isna (keys ! i) then NaN
                              else (case result i of
                                      Some ys \<Rightarrow> ys ! length (group_rows keys i i)
                                    | None \<Rightarrow> NaN))
                      [0..<n])
         else None)"

text \<open>The grouping keys: a column, or a level of the index.\<close>

definition group_keys :: "panel \<Rightarrow> string \<Rightarrow> error + cell list" where
  "group_keys df group_col =
     (if group_col \<in> set (pcols df) then
        (if group_col = ''firm'' \<or> group_col = ''date''
         then Inl (PandasError ''ambiguous group key'') else Inr (column df group_col))
      else if group_col = ''firm'' then Inr (map (\<lambda>(k, vs). Str (fst k)) (prows df))
      else if group_col = ''date'' then Inr (map (\<lambda>(k, vs). Time (snd k)) (prows df))
      else Inl (PandasError ''KeyError''))"

text \<open>\<open>df[z_col] = values\<close>: an existing column is overwritten in place, a new one appended.\<close>

definition set_column :: "string \<Rightarrow> cell list \<Rightarrow> panel \<Rightarrow> panel" where
  "set_column c vals df =
     \<lparr>pcols = (if c \<in> set (pcols df) then pcols df else pcols df @ [c]),
      prows = map (\<lambda>((k, vs), v). (k, AList.update c v vs)) (zip (prows df) vals)\<rparr>"

text \<open>
  One round of the loop over \<open>esg_cols\<close>: the grouping key and the column must exist,
  and the transform must not raise.
\<close>

definition add_zscore :: "lib \<Rightarrow> panel \<Rightarrow> string \<Rightarrow> string \<Rightarrow> error + panel" where
  "add_zscore X df col group_col =
     (case group_keys df group_col of
        Inl e \<Rightarrow> Inl e
      | Inr keys \<Rightarrow>
          if col \<notin> set (pcols df) then Inl (PandasError ''KeyError'')
          else
            (case groupby_transform (zscore X (column df col)) keys (column df col) of
               None \<Rightarrow> Inl (PandasError ''transform'')
             | Some vals \<Rightarrow> Inr (set_column (col @ ''_z'') vals df)))"

fun add_esg_zscores :: "lib \<Rightarrow> panel \<Rightarrow> string list \<Rightarrow> string \<Rightarrow> error + panel" where
  "add_esg_zscores X df [] group_col = Inr df"
| "add_esg_zscores X df (col # esg_cols) group_col =
     (case add_zscore X df col group_col of
        Inl e \<Rightarrow> Inl e
      | Inr df' \<Rightarrow> add_esg_zscores X df' esg_cols group_col)"

section \<open>Concrete inputs\<close>

text \<open>
  An instance of the library record for running the model on small sheets: a timestamp
  cell is a date, a number cell of a remaining row is a number, every other cell fails
  to parse, and the header cells are taken as labels unchanged (as pandas does for
  distinct texts). Its arithmetic is exact, on the number cells, and never raises: the
  mean and the deviation (denominator n - 1) skip the other cells, and a difference or
  a quotient with a cell that is no number, or by 0, is NaN.
\<close>

definition present :: "cell list \<Rightarrow> real list" where
  "present xs = List.map_filter (\<lambda>c. case c of Num r \<Rightarrow> Some r | _ \<Rightarrow> None) xs"

definition exact_mean :: "cell list \<Rightarrow> cell" where
  "exact_mean x =
     (let vs = present x
      in if vs = [] then NaN else Num (sum_list vs / real (length vs)))"

definition exact_std :: "cell list \<Rightarrow> cell" where
  "exact_std x =
     (let vs = present x
      in if length vs < 2 then NaN
         else
           let m = sum_list vs / real (length vs)
           in Num (sqrt (sum_list (map (\<lambda>v. (v - m)\<^sup>2) vs) / real (length vs - 1))))"

definition exact_sub :: "cell list \<Rightarrow> cell \<Rightarrow> cell list" where
  "exact_sub x m = map (\<lambda>c. case (c, m) of (Num r, Num a) \<Rightarrow> Num (r - a) | _ \<Rightarrow> NaN) x"

definition exact_div :: "cell list \<Rightarrow> cell \<Rightarrow> cell list" where
  "exact_div d s =
     map (\<lambda>c. case (c, s) of (Num r, Num b) \<Rightarrow> (if b = 0 then NaN else Num (r / b)) | _ \<Rightarrow> NaN) d"

definition sample_lib :: lib where
  "sample_lib =
     \<lparr>str_of = (\<lambda>c. ''obj''),
      to_datetime = (\<lambda>c. case c of Time t \<Rightarrow> Some t | _ \<Rightarrow> None),
      to_numeric =
        (\<lambda>col kept. map (\<lambda>(c, k). case c of Num r \<Rightarrow> Some r | _ \<Rightarrow> None)
                      (filter snd (zip col kept))),
      header_labels = (\<lambda>row. row),
      series_mean = (\<lambda>col x. Some (exact_mean x)),
      series_std = (\<lambda>col x. Some (exact_std x)),
      series_sub = (\<lambda>col x m. Some (exact_sub x m)),
      series_div = (\<lambda>col d s. Some (exact_div d s))\<rparr>"

text \<open>
  A sheet with three rows of legend, then a decoy row at offset 5 of the scanned block
  (6 of the 9 expected names, no date) and the header at offset 12, followed by three
  data rows: one with a text where a number should be, one with a text where the date
  should be, one with an empty cell. The workbook has this sheet and a sheet with the
  decoy only.
\<close>

definition decoy_row :: "cell list" where
  "decoy_row =
     [Str ''Rendite_1_Quartal'', Str ''Volatility 260 Day Calc'', Str ''Return on Common Equity'',
      Str ''Price to Book Ratio'', Str ''Book to Market Ratio'', Str ''Bloomberg_ESG'', Str ''Legend'']"

definition header_row :: "cell list" where
  "header_row =
     [Str '' Date '', Str ''Rendite_1_Quartal'', Str ''Volatility  260 Day Calc'',
      Str ''Return on Common Equity'', Str ''Price to Book Ratio'', Str ''Book to Market Ratio'',
      Str ''Bloomberg_ESG'', Str ''Refinitiv_ESG'', Str ''Rendite_2_Quartal'']"

definition decoy_data :: "cell list list" where
  "decoy_data =
     [[Time 5, Num 1, Str ''n/a'', Num 3, Num 4, Num 5, Num 6, Num 7, Num 8],
      [Str ''Total'', Num 1, Num 2, Num 3, Num 4, Num 5, Num 6, Num 7, Num 8],
      [Time 2, Num 1, Num 2, Num 3, Num 4, Num 5, NaN, Num 7, Num 8]]"

definition decoy_sheet :: sheet where
  "decoy_sheet =
     replicate 3 [Str ''Legend''] @ replicate 5 [NaN] @ [decoy_row] @ replicate 6 [NaN]
     @ [header_row] @ decoy_data"

definition decoy_wb :: workbook where
  "decoy_wb = [(''FirmA'', decoy_sheet), (''FirmB'', replicate 4 [NaN] @ [decoy_row])]"

text \<open>What \<open>read_firm_sheet\<close> reads from that sheet, and the firm table it returns.\<close>

definition decoy_frame :: raw_frame where
  "decoy_frame = \<lparr>labels = header_row, body = decoy_data\<rparr>"

definition decoy_table :: firm_table where
  "decoy_table =
     \<lparr>fcols = tl EXPECTED_HEADERS,
      frows =
        [(2, [(''rendite_1_quartal'', Num 1), (''volatility 260 day calc'', Num 2),
              (''return on common equity'', Num 3), (''price to book ratio'', Num 4),
              (''book to market ratio'', Num 5), (''bloomberg_esg'', NaN),
              (''refinitiv_esg'', Num 7), (''rendite_2_quartal'', Num 8)]),
         (5, [(''rendite_1_quartal'', Num 1), (''volatility 260 day calc'', NaN),
              (''return on common equity'', Num 3), (''price to book ratio'', Num 4),
              (''book to market ratio'', Num 5), (''bloomberg_esg'', Num 6),
              (''refinitiv_esg'', Num 7), (''rendite_2_quartal'', Num 8)])]\<rparr>"

text \<open>
  Workbooks for \<open>build_panel\<close>, whose header search starts at row 2000: one with the
  metadata sheet and two firm sheets, one whose second firm sheet has no header, and one
  with the metadata sheet only.
\<close>

definition deep_sheet :: "cell list list \<Rightarrow> sheet" where
  "deep_sheet rows = replicate 2000 [NaN] @ rows"

definition panel_wb :: workbook where
  "panel_wb =
     [(''Worksheet'', [[Str ''Info'']]),
      (''FirmB'', deep_sheet (header_row # decoy_data)),
      (''FirmA'', deep_sheet (header_row # decoy_data))]"

definition broken_wb :: workbook where
  "broken_wb =
     [(''FirmA'', deep_sheet (header_row # decoy_data)),
      (''FirmB'', deep_sheet [decoy_row])]"

definition meta_wb :: workbook where
  "meta_wb = [(''Worksheet'', [[Str ''Info'']])]"

section \<open>Auxiliary notions for the proofs\<close>

text \<open>
  A text with no whitespace at either end, and a text in which every whitespace
  character is a single space between two words.
\<close>

definition trimmed :: "string \<Rightarrow> bool" where
  "trimmed s \<longleftrightarrow> s = [] \<or> (\<not> is_space (hd s) \<and> \<not> is_space (last s))"

fun compact_ws :: "string \<Rightarrow> bool" where
  "compact_ws [] = True"
| "compact_ws [c] = (is_space c \<longrightarrow> c = CHR '' '')"
| "compact_ws (c # d # cs) = ((is_space c \<longrightarrow> c = CHR '' '' \<and> \<not> is_space d) \<and> compact_ws (d # cs))"

section \<open>Properties of \<open>_norm\<close>\<close>

declare split_ws.simps [simp del]

lemma is_space_lower_char [simp]: "is_space (lower_char c) = is_space c"
  unfolding is_space_def lower_char_def Let_def
  by (auto simp: of_char_of)

lemma lower_char_idem [simp]: "lower_char (lower_char c) = lower_char c"
  unfolding lower_char_def Let_def
  by (auto simp: of_char_of)

lemma lower_char_space [simp]: "lower_char (CHR '' '') = CHR '' ''"
  by (simp add: lower_char_def)

lemma is_space_space [simp]: "is_space (CHR '' '')"
  by (simp add: is_space_def)

lemma is_space_nl [simp]: "is_space (CHR 0x0A)"
  by (simp add: is_space_def)

lemma last_dropWhile: "xs \<noteq> [] \<Longrightarrow> \<not> P (last xs) \<Longrightarrow> last (dropWhile P xs) = last xs \<and> dropWhile P xs \<noteq> []"
  by (induction xs) auto

lemma rstrip_props:
  assumes "xs \<noteq> []" "\<not> P (hd xs)"
  shows "rev (dropWhile P (rev xs)) \<noteq> []"
    and "hd (rev (dropWhile P (rev xs))) = hd xs"
    and "\<not> P (last (rev (dropWhile P (rev xs))))"
proof -
  define u where "u = dropWhile P (rev xs)"
  have "hd xs \<in> set (rev xs)" using assms(1) by simp
  with assms(2) have u_ne: "u \<noteq> []"
    unfolding u_def by (metis dropWhile_eq_Nil_conv)
  then show "rev (dropWhile P (rev xs)) \<noteq> []" by (simp add: u_def)
  have "last (rev xs) = hd xs" using assms(1) by (simp add: last_rev)
  with assms have "last u = hd xs"
    unfolding u_def using last_dropWhile[of "rev xs" P] by simp
  with u_ne show "hd (rev (dropWhile P (rev xs))) = hd xs"
    by (simp add: u_def[symmetric] hd_rev)
  have "\<not> P (hd u)" using u_ne unfolding u_def by (metis hd_dropWhile)
  with u_ne show "\<not> P (last (rev (dropWhile P (rev xs))))"
    by (simp add: u_def[symmetric] last_rev)
qed

lemma trimmed_strip: "trimmed (str_strip s)"
proof (cases "dropWhile is_space s = []")
  case True
  have "str_strip s = []" unfolding str_strip_def True by simp
  then show ?thesis by (simp add: trimmed_def)
next
  case False
  define t where "t = dropWhile is_space s"
  have ne: "t \<noteq> []" using False by (simp add: t_def)
  have hd_t: "\<not> is_space (hd t)" using False unfolding t_def by (metis hd_dropWhile)
  from rstrip_props[of t is_space, OF ne hd_t] hd_t show ?thesis
    unfolding trimmed_def str_strip_def t_def[symmetric] by simp
qed

lemma strip_trimmed: "trimmed s \<Longrightarrow> str_strip s = s"
proof (cases "s = []")
  case True
  then show ?thesis by (simp add: str_strip_def)
next
  case False
  assume "trimmed s"
  with False have h: "\<not> is_space (hd s)" and l: "\<not> is_space (last s)"
    by (auto simp: trimmed_def)
  from h False have 1: "dropWhile is_space s = s" by (cases s) auto
  from l False have "\<not> is_space (hd (rev s))" by (simp add: hd_rev)
  moreover have "rev s \<noteq> []" using False by simp
  ultimately have 2: "dropWhile is_space (rev s) = rev s" by (cases "rev s") auto
  show ?thesis by (simp add: str_strip_def 1 2)
qed

lemma sub_ws_Nil_iff [simp]: "re_sub_ws s = [] \<longleftrightarrow> s = []"
  by (cases s) auto

lemma hd_sub_ws: "s \<noteq> [] \<Longrightarrow> \<not> is_space (hd s) \<Longrightarrow> hd (re_sub_ws s) = hd s"
  by (cases s) auto

lemma last_sub_ws: "s \<noteq> [] \<Longrightarrow> \<not> is_space (last s) \<Longrightarrow> last (re_sub_ws s) = last s"
proof (induction s rule: re_sub_ws.induct)
  case 1
  then show ?case by simp
next
  case (2 c cs)
  show ?case
  proof (cases "is_space c")
    case True
    with 2 have ne: "cs \<noteq> []" by auto
    with 2 have l: "\<not> is_space (last cs)" by simp
    have d1: "last (dropWhile is_space cs) = last cs" and d2: "dropWhile is_space cs \<noteq> []"
      using last_dropWhile[of cs is_space] ne l by blast+
    from d1 l have "last (re_sub_ws (dropWhile is_space cs)) = last (dropWhile is_space cs)"
      using "2.IH"(1)[OF True d2] by simp
    moreover have "re_sub_ws (dropWhile is_space cs) \<noteq> []" using d2 by (metis sub_ws_Nil_iff)
    ultimately show ?thesis using True d1 d2 ne by auto
  next
    case False
    with 2 show ?thesis by (cases cs) auto
  qed
qed

lemma trimmed_sub_ws: "trimmed s \<Longrightarrow> trimmed (re_sub_ws s)"
  by (auto simp: trimmed_def hd_sub_ws last_sub_ws)

lemma compact_sub_ws: "compact_ws (re_sub_ws s)"
proof (induction s rule: re_sub_ws.induct)
  case 1
  then show ?case by simp
next
  case (2 c cs)
  show ?case
  proof (cases "is_space c")
    case True
    define r where "r = dropWhile is_space cs"
    have c: "compact_ws (re_sub_ws r)" using 2 True r_def by simp
    show ?thesis
    proof (cases r)
      case Nil
      with True r_def show ?thesis by simp
    next
      case (Cons a as)
      then have "\<not> is_space (hd r)" unfolding r_def by (metis hd_dropWhile list.distinct(1))
      with Cons have "\<not> is_space (hd (re_sub_ws r))" by (simp add: hd_sub_ws)
      moreover have "r \<noteq> []" using Cons by simp
      then have "re_sub_ws r \<noteq> []" by (metis sub_ws_Nil_iff)
      then obtain b bs where "re_sub_ws r = b # bs" by (cases "re_sub_ws r") blast+
      ultimately show ?thesis using c True r_def by simp
    qed
  next
    case False
    with 2 show ?thesis by (cases "re_sub_ws cs") auto
  qed
qed

lemma sub_ws_compact: "compact_ws s \<Longrightarrow> re_sub_ws s = s"
  by (induction s rule: compact_ws.induct) auto

lemma replace_nl_compact: "compact_ws s \<Longrightarrow> replace_nl s = s"
  by (induction s rule: compact_ws.induct) (auto simp: replace_nl_def)

lemma trimmed_lower [simp]: "trimmed (str_lower s) = trimmed s"
  by (cases s) (auto simp: trimmed_def str_lower_def last_map hd_map)

lemma lower_fixed_sub_ws:
  "\<forall>c\<in>set s. lower_char c = c \<Longrightarrow> \<forall>c\<in>set (re_sub_ws s). lower_char c = c"
proof (induction s rule: re_sub_ws.induct)
  case 1
  then show ?case by simp
next
  case (2 c cs)
  then show ?case
    by (auto dest: set_dropWhileD)
qed

lemma norm_str_eq: "norm_str s = re_sub_ws (str_lower (str_strip s))"
proof -
  let ?r = "re_sub_ws (str_lower (str_strip s))"
  have t: "trimmed ?r" by (simp add: trimmed_sub_ws trimmed_strip)
  have c: "compact_ws ?r" by (rule compact_sub_ws)
  show ?thesis
    unfolding norm_str_def by (simp add: replace_nl_compact[OF c] strip_trimmed[OF t])
qed

lemma norm_str_idem: "norm_str (norm_str s) = norm_str s"
proof -
  let ?r = "re_sub_ws (str_lower (str_strip s))"
  have t: "trimmed ?r" by (simp add: trimmed_sub_ws trimmed_strip)
  have c: "compact_ws ?r" by (rule compact_sub_ws)
  have "\<forall>c\<in>set ?r. lower_char c = c"
    by (rule lower_fixed_sub_ws) (simp add: str_lower_def)
  then have l: "str_lower ?r = ?r" unfolding str_lower_def by (simp add: map_idI)
  have "norm_str ?r = re_sub_ws (str_lower (str_strip ?r))" by (rule norm_str_eq)
  also have "\<dots> = ?r" by (simp add: strip_trimmed[OF t] l sub_ws_compact[OF c])
  finally show ?thesis by (simp add: norm_str_eq)
qed

lemma strip_lower: "str_strip (str_lower s) = str_lower (str_strip s)"
  unfolding str_strip_def str_lower_def
  by (simp add: dropWhile_map rev_map comp_def)


lemma sub_ws_nonspace_prefix:
  "\<forall>c\<in>set w. \<not> is_space c \<Longrightarrow> re_sub_ws (w @ r) = w @ re_sub_ws r"
  by (induction w) auto

lemma split_ws_dropWhile: "split_ws (dropWhile is_space s) = split_ws s"
  by (simp add: split_ws.simps[of s] split_ws.simps[of "dropWhile is_space s"])

lemma split_ws_Nil_iff: "split_ws s = [] \<longleftrightarrow> (\<forall>c\<in>set s. is_space c)"
  by (simp add: split_ws.simps[of s] Let_def)

lemma sub_ws_join:
  "s = [] \<or> \<not> is_space (last s) \<Longrightarrow> re_sub_ws (dropWhile is_space s) = join_sp (split_ws s)"
proof (induction s rule: split_ws.induct)
  case (1 s)
  define s' where "s' = dropWhile is_space s"
  show ?case
  proof (cases "s' = []")
    case True
    then show ?thesis by (simp add: split_ws.simps[of s] s'_def[symmetric])
  next
    case False
    define w where "w = takeWhile (\<lambda>c. \<not> is_space c) s'"
    define r where "r = dropWhile (\<lambda>c. \<not> is_space c) s'"
    have s'_eq: "s' = w @ r" by (simp add: w_def r_def)
    have w_ns: "\<forall>c\<in>set w. \<not> is_space c" unfolding w_def by (auto dest: set_takeWhileD)
    have sp: "split_ws s = w # split_ws r"
      using False by (simp add: split_ws.simps[of s] s'_def[symmetric] w_def r_def)
    have sub: "re_sub_ws s' = w @ re_sub_ws r"
      unfolding s'_eq by (rule sub_ws_nonspace_prefix[OF w_ns])
    have s_ne: "s \<noteq> []" using False s'_def by auto
    with 1(2) have ls: "\<not> is_space (last s)" by simp
    have last_s': "last s' = last s"
      unfolding s'_def using last_dropWhile[of s is_space] s_ne ls by blast
    show ?thesis
    proof (cases "r = []")
      case True
      then have "split_ws r = []" by (simp add: split_ws_Nil_iff)
      with sub sp True show ?thesis by (simp add: s'_def[symmetric])
    next
      case r_ne: False
      then have hr: "is_space (hd r)" unfolding r_def by (metis hd_dropWhile)
      have lr: "\<not> is_space (last r)" using r_ne s'_eq last_s' ls by simp
      have ih: "re_sub_ws (dropWhile is_space r) = join_sp (split_ws r)"
        using "1.IH"[OF s'_def False] lr by (simp add: r_def)
      have "last r \<in> set r" using r_ne by simp
      with lr have "split_ws r \<noteq> []" by (auto simp: split_ws_Nil_iff)
      then obtain x xs where xs: "split_ws r = x # xs" by (cases "split_ws r") auto
      obtain a as where r_eq: "r = a # as" using r_ne by (cases r) auto
      with hr have "re_sub_ws r = CHR '' '' # re_sub_ws (dropWhile is_space as)" by simp
      moreover from r_eq hr have "dropWhile is_space r = dropWhile is_space as" by simp
      ultimately have "re_sub_ws r = CHR '' '' # join_sp (split_ws r)" using ih by simp
      with sub sp xs show ?thesis by (simp add: s'_def[symmetric])
    qed
  qed
qed

lemma split_ws_trailing:
  "\<forall>c\<in>set ws. is_space c \<Longrightarrow> split_ws (s @ ws) = split_ws s"
proof (induction s rule: split_ws.induct)
  case (1 s)
  define s' where "s' = dropWhile is_space s"
  show ?case
  proof (cases "s' = []")
    case True
    then have "\<forall>c\<in>set (s @ ws). is_space c" using 1(2) by (auto simp: s'_def)
    moreover from True have "\<forall>c\<in>set s. is_space c" by (auto simp: s'_def)
    ultimately show ?thesis by (simp only: split_ws_Nil_iff[symmetric])
  next
    case False
    then have d: "dropWhile is_space (s @ ws) = s' @ ws"
      by (auto simp: s'_def dropWhile_append)
    have ws_t: "takeWhile (\<lambda>c. \<not> is_space c) ws = []" and ws_d: "dropWhile (\<lambda>c. \<not> is_space c) ws = ws"
      using 1(2) by (cases ws; simp)+
    have t: "takeWhile (\<lambda>c. \<not> is_space c) (s' @ ws) = takeWhile (\<lambda>c. \<not> is_space c) s'"
    proof (cases "\<forall>x\<in>set s'. \<not> is_space x")
      case True
      then have "takeWhile (\<lambda>c. \<not> is_space c) s' = s'" by (intro takeWhile_eq_all_conv[THEN iffD2]) blast
      moreover from True have "takeWhile (\<lambda>c. \<not> is_space c) (s' @ ws) = s' @ takeWhile (\<lambda>c. \<not> is_space c) ws"
        by (intro takeWhile_append2) blast
      ultimately show ?thesis by (metis ws_t append_Nil2)
    next
      case False
      then obtain x where "x \<in> set s'" "\<not> \<not> is_space x" by blast
      then show ?thesis by (rule takeWhile_append1)
    qed
    have dd: "dropWhile (\<lambda>c. \<not> is_space c) (s' @ ws) = dropWhile (\<lambda>c. \<not> is_space c) s' @ ws"
      by (simp add: dropWhile_append ws_d)
    have "split_ws (s @ ws) =
      takeWhile (\<lambda>c. \<not> is_space c) s' # split_ws (dropWhile (\<lambda>c. \<not> is_space c) s' @ ws)"
      using False by (simp add: split_ws.simps[of "s @ ws"] d t dd)
    also have "\<dots> = takeWhile (\<lambda>c. \<not> is_space c) s' # split_ws (dropWhile (\<lambda>c. \<not> is_space c) s')"
      using "1.IH"[OF s'_def False] 1(2) by simp
    also have "\<dots> = split_ws s"
      using False by (simp add: split_ws.simps[of s] s'_def[symmetric])
    finally show ?thesis .
  qed
qed

lemma split_ws_strip: "split_ws (str_strip s) = split_ws s"
proof -
  define v where "v = dropWhile is_space s"
  have "rev v = takeWhile is_space (rev v) @ dropWhile is_space (rev v)" by simp
  then have "v = rev (dropWhile is_space (rev v)) @ rev (takeWhile is_space (rev v))"
    by (metis rev_append rev_rev_ident)
  then have v_eq: "v = str_strip s @ rev (takeWhile is_space (rev v))"
    by (simp add: str_strip_def v_def[symmetric])
  have "\<forall>c\<in>set (rev (takeWhile is_space (rev v))). is_space c"
    by (auto dest: set_takeWhileD)
  from split_ws_trailing[OF this, of "str_strip s"] v_eq have "split_ws v = split_ws (str_strip s)"
    by simp
  then show ?thesis by (simp add: v_def split_ws_dropWhile)
qed

lemma norm_str_words: "norm_str s = join_sp (split_ws (str_lower s))"
proof -
  let ?t = "str_strip (str_lower s)"
  have t: "trimmed ?t" by (rule trimmed_strip)
  then have d: "dropWhile is_space ?t = ?t" by (cases ?t) (auto simp: trimmed_def)
  from t have "?t = [] \<or> \<not> is_space (last ?t)" by (auto simp: trimmed_def)
  from sub_ws_join[OF this] have "re_sub_ws ?t = join_sp (split_ws ?t)" by (simp add: d)
  then show ?thesis by (simp add: norm_str_eq strip_lower[symmetric] split_ws_strip)
qed

text \<open>
  Claim C7, as amended. \<open>_norm\<close> is a total function and idempotent: normalising a token
  again returns it unchanged. \<open>None\<close>, a Python float NaN and the empty text give the
  empty token; the other missing markers are converted by \<open>str()\<close> like any other value
  and give the tokens "nat" (\<open>pd.NaT\<close>), "<na>" (\<open>pd.NA\<close>) and "nan" (a NaN of type
  \<open>np.float32\<close>). Two texts with the same words up to case (they differ only in case and
  in the whitespace around and between the words, newlines included) have the same
  token, which is the lower-cased words joined by single spaces; " Date \\n", "DATE" and
  "date" all give "date".
\<close>

theorem norm_header_idempotent:
  "norm_header X (Str (norm_header X c)) = norm_header X c
   \<and> norm_header X PyNone = [] \<and> norm_header X NaN = [] \<and> norm_header X (Str []) = []
   \<and> norm_header X NaT = ''nat'' \<and> norm_header X PdNA = ''<na>'' \<and> norm_header X NaN32 = ''nan''
   \<and> (split_ws (str_lower s) = split_ws (str_lower t) \<longrightarrow> norm_header X (Str s) = norm_header X (Str t))
   \<and> norm_header X (Str s) = join_sp (split_ws (str_lower s))
   \<and> norm_header X (Str ('' Date '' @ [CHR 0x0A])) = ''date''
   \<and> norm_header X (Str ''DATE'') = ''date''
   \<and> norm_header X (Str ''date'') = ''date''"
proof -
  have e0: "norm_str [] = []"
    by (simp add: norm_str_def str_strip_def str_lower_def replace_nl_def)
  have idem: "norm_header X (Str (norm_header X c)) = norm_header X c"
    by (cases c) (simp_all add: norm_str_idem e0)
  have e: "norm_header X (Str []) = []"
    by (simp add: e0)
  have m1: "norm_str ''NaT'' = ''nat''" by code_simp
  have m2: "norm_str ''<NA>'' = ''<na>''" by code_simp
  have m3: "norm_str ''nan'' = ''nan''" by code_simp
  have ex1: "norm_str ('' Date '' @ [CHR 0x0A]) = ''date''" by code_simp
  have ex2: "norm_str ''DATE'' = ''date''" by code_simp
  have ex3: "norm_str ''date'' = ''date''" by code_simp
  have w: "norm_header X (Str s) = join_sp (split_ws (str_lower s))"
    by (simp add: norm_str_words)
  have i: "split_ws (str_lower s) = split_ws (str_lower t) \<longrightarrow>
           norm_header X (Str s) = norm_header X (Str t)"
    by (simp add: norm_str_words)
  show ?thesis
    using idem e m1 m2 m3 ex1 ex2 ex3 w i by simp
qed

theorem norm_header_idempotent_witness:
  "split_ws (str_lower ('' Date '' @ [CHR 0x0A])) = split_ws (str_lower ''DATE'')
   \<and> norm_header sample_lib (Str ('' Date '' @ [CHR 0x0A])) = norm_header sample_lib (Str ''DATE'')"
proof -
  have h: "split_ws (str_lower ('' Date '' @ [CHR 0x0A])) = split_ws (str_lower ''DATE'')"
    by code_simp
  with norm_header_idempotent[of sample_lib NaN "'' Date '' @ [CHR 0x0A]" "''DATE''"] show ?thesis
    by blast
qed

text \<open>
  Claim C7, as stated, fails for the missing markers that are neither \<open>None\<close> nor a
  Python float: \<open>_norm\<close> does not return the empty token for \<open>pd.NaT\<close>, the missing
  value of a column of dates in the scanned block.
\<close>

theorem norm_header_NaT_not_empty:
  "norm_header sample_lib NaT = ''nat'' \<and> norm_header sample_lib NaT \<noteq> []"
proof -
  have "norm_str ''NaT'' = ''nat''" by code_simp
  then show ?thesis by simp
qed

section \<open>Properties of \<open>find_header_row\<close>\<close>

lemmas norm_eval =
  norm_str_def str_strip_def str_lower_def replace_nl_def is_space_def lower_char_def
  char_of_def bit_Suc_0_iff

lemma distinct_expected: "distinct EXPECTED_HEADERS"
  by (simp add: EXPECTED_HEADERS_def)

lemma norm_expected: "map norm_str EXPECTED_HEADERS = EXPECTED_HEADERS"
  by (simp add: EXPECTED_HEADERS_def norm_eval)

lemma expected_eq: "expected X = EXPECTED_HEADERS"
proof -
  have "map (\<lambda>h. norm_header X (Str h)) EXPECTED_HEADERS = map norm_str EXPECTED_HEADERS"
    by simp
  then show ?thesis
    unfolding expected_def by (simp only: norm_expected distinct_expected distinct_remdups_id)
qed

lemma header_row_tokens: "map (norm_header sample_lib) header_row = EXPECTED_HEADERS"
  by (simp add: header_row_def EXPECTED_HEADERS_def norm_eval)

lemma decoy_row_tokens:
  "map (norm_header sample_lib) decoy_row =
   [''rendite_1_quartal'', ''volatility 260 day calc'', ''return on common equity'',
    ''price to book ratio'', ''book to market ratio'', ''bloomberg_esg'', ''legend'']"
  by (simp add: decoy_row_def norm_eval)

lemma header_row_matches: "row_matches sample_lib header_row"
  unfolding row_matches_def Let_def header_row_tokens expected_eq by (simp add: EXPECTED_HEADERS_def)

lemma decoy_row_fails: "\<not> row_matches sample_lib decoy_row"
  unfolding row_matches_def Let_def decoy_row_tokens expected_eq by (simp add: EXPECTED_HEADERS_def)

lemma filler_rows_fail: "\<not> row_matches sample_lib [NaN]" "\<not> row_matches sample_lib [Str ''Legend'']"
  unfolding row_matches_def Let_def expected_eq by (simp_all add: EXPECTED_HEADERS_def norm_eval)

lemma row_matches_qualifies: "row_matches X row \<longleftrightarrow> qualifies X row"
proof -
  let ?S = "norm_header X ` set row"
  have "length (filter (\<lambda>h. h \<in> ?S) EXPECTED_HEADERS) = card (set (filter (\<lambda>h. h \<in> ?S) EXPECTED_HEADERS))"
  proof -
    have "distinct (filter (\<lambda>h. h \<in> ?S) EXPECTED_HEADERS)"
      using distinct_expected by (rule distinct_filter)
    then show ?thesis by (rule distinct_card[symmetric])
  qed
  also have "set (filter (\<lambda>h. h \<in> ?S) EXPECTED_HEADERS) = ?S \<inter> set EXPECTED_HEADERS"
    by auto
  finally show ?thesis
    by (simp add: row_matches_def qualifies_def expected_eq Let_def)
qed

lemma scan_rows_Some:
  "scan_rows X i rows = Some r \<longleftrightarrow>
     (\<exists>j<length rows. r = i + j \<and> row_matches X (rows ! j) \<and> (\<forall>k<j. \<not> row_matches X (rows ! k)))"
proof (induction rows arbitrary: i)
  case Nil
  then show ?case by simp
next
  case (Cons row rows)
  show ?case
  proof (cases "row_matches X row")
    case True
    have "(\<exists>j<length (row # rows). r = i + j \<and> row_matches X ((row # rows) ! j) \<and>
            (\<forall>k<j. \<not> row_matches X ((row # rows) ! k))) \<longleftrightarrow> r = i"
    proof
      assume "\<exists>j<length (row # rows). r = i + j \<and> row_matches X ((row # rows) ! j) \<and>
            (\<forall>k<j. \<not> row_matches X ((row # rows) ! k))"
      then obtain j where j: "r = i + j" "\<forall>k<j. \<not> row_matches X ((row # rows) ! k)" by blast
      have "j = 0"
      proof (rule ccontr)
        assume "j \<noteq> 0"
        then have "0 < j" by simp
        with j(2) have "\<not> row_matches X ((row # rows) ! 0)" by blast
        with True show False by simp
      qed
      with j show "r = i" by simp
    next
      assume "r = i"
      with True show "\<exists>j<length (row # rows). r = i + j \<and> row_matches X ((row # rows) ! j) \<and>
            (\<forall>k<j. \<not> row_matches X ((row # rows) ! k))"
        by (intro exI[of _ 0]) simp
    qed
    with True show ?thesis by auto
  next
    case False
    have "(\<exists>j<length (row # rows). r = i + j \<and> row_matches X ((row # rows) ! j) \<and>
            (\<forall>k<j. \<not> row_matches X ((row # rows) ! k))) \<longleftrightarrow>
          (\<exists>j<length rows. r = Suc i + j \<and> row_matches X (rows ! j) \<and>
            (\<forall>k<j. \<not> row_matches X (rows ! k)))" (is "?L \<longleftrightarrow> ?R")
    proof
      assume ?L
      then obtain j where j: "j < length (row # rows)" "r = i + j" "row_matches X ((row # rows) ! j)"
        "\<forall>k<j. \<not> row_matches X ((row # rows) ! k)" by blast
      with False obtain j' where j': "j = Suc j'" by (cases j) auto
      have "\<forall>k<j'. \<not> row_matches X (rows ! k)"
      proof (intro allI impI)
        fix k assume "k < j'"
        then have "Suc k < j" using j' by simp
        with j(4) have "\<not> row_matches X ((row # rows) ! Suc k)" by blast
        then show "\<not> row_matches X (rows ! k)" by simp
      qed
      with j j' show ?R by (intro exI[of _ j']) simp
    next
      assume ?R
      then obtain j where j: "j < length rows" "r = Suc i + j" "row_matches X (rows ! j)"
        "\<forall>k<j. \<not> row_matches X (rows ! k)" by blast
      have "\<forall>k<Suc j. \<not> row_matches X ((row # rows) ! k)"
      proof (intro allI impI)
        fix k assume "k < Suc j"
        then show "\<not> row_matches X ((row # rows) ! k)"
          using False j(4) by (cases k) auto
      qed
      with j show ?L by (intro exI[of _ "Suc j"]) simp
    qed
    with False Cons.IH[of "Suc i"] show ?thesis by simp
  qed
qed

lemma scan_rows_None:
  "scan_rows X i rows = None \<longleftrightarrow> (\<forall>row\<in>set rows. \<not> row_matches X row)"
  by (induction rows arbitrary: i) auto

lemma decoy_wb_FirmA: "map_of decoy_wb ''FirmA'' = Some decoy_sheet"
  by (simp add: decoy_wb_def)

lemma decoy_wb_FirmB: "map_of decoy_wb ''FirmB'' = Some (replicate 4 [NaN] @ [decoy_row])"
  by (simp add: decoy_wb_def)

lemma find_header_row_FirmA:
  "find_header_row sample_lib decoy_wb ''banks.xlsx'' ''FirmA'' 3 20 = Inr 15"
  by (simp add: find_header_row_def read_excel_block_def decoy_wb_def decoy_sheet_def header_row_matches decoy_row_fails filler_rows_fail
        numeral_eq_Suc)

lemma find_header_row_FirmB:
  "find_header_row sample_lib decoy_wb ''banks.xlsx'' ''FirmB'' 3 20
     = Inl (HeaderNotFound ''FirmB'' ''banks.xlsx'' 3 22)"
  by (simp add: find_header_row_def read_excel_block_def decoy_wb_def header_row_matches decoy_row_fails filler_rows_fail numeral_eq_Suc)

text \<open>
  Claim C1. For a sheet of the workbook, \<open>find_header_row\<close> returns \<open>r\<close> exactly when
  \<open>r = start_row + i\<close> for the smallest index \<open>i\<close> of the scanned block whose row has
  "date" among its normalised tokens and at least 7 of the expected-schema tokens; no
  earlier row, which fails one of the two conditions, is returned.
\<close>

theorem find_header_row_earliest:
  assumes "map_of wb sheet_name = Some rows"
  shows "find_header_row X wb file_path sheet_name start_row max_scan_rows = Inr r \<longleftrightarrow>
     (\<exists>i<length (take max_scan_rows (drop start_row rows)).
        r = start_row + i
        \<and> qualifies X (take max_scan_rows (drop start_row rows) ! i)
        \<and> (\<forall>j<i. \<not> qualifies X (take max_scan_rows (drop start_row rows) ! j)))"
proof -
  have "find_header_row X wb file_path sheet_name start_row max_scan_rows = Inr r \<longleftrightarrow>
        (\<exists>i. scan_rows X 0 (take max_scan_rows (drop start_row rows)) = Some i \<and> r = start_row + i)"
    using assms
    by (auto simp: find_header_row_def read_excel_block_def split: option.splits)
  then show ?thesis
    by (simp add: scan_rows_Some row_matches_qualifies) blast
qed

theorem find_header_row_earliest_witness:
  "map_of decoy_wb ''FirmA'' = Some decoy_sheet
   \<and> find_header_row sample_lib decoy_wb ''banks.xlsx'' ''FirmA'' 3 20 = Inr (3 + 12)
   \<and> qualifies sample_lib (take 20 (drop 3 decoy_sheet) ! 12)
   \<and> \<not> qualifies sample_lib (take 20 (drop 3 decoy_sheet) ! 5)"
proof -
  let ?chunk = "take 20 (drop 3 decoy_sheet)"
  have f: "find_header_row sample_lib decoy_wb ''banks.xlsx'' ''FirmA'' 3 20 = Inr 15"
    by (rule find_header_row_FirmA)
  from find_header_row_earliest[OF decoy_wb_FirmA, of sample_lib "''banks.xlsx''" 3 20 15] f
  obtain i where i: "15 = 3 + i" "qualifies sample_lib (?chunk ! i)"
    "\<forall>j<i. \<not> qualifies sample_lib (?chunk ! j)"
    by blast
  from i(1) have "i = 12" by simp
  with i have "qualifies sample_lib (?chunk ! 12)" "\<not> qualifies sample_lib (?chunk ! 5)"
    by simp_all
  with f decoy_wb_FirmA show ?thesis by simp
qed

text \<open>
  Claim C6. For a sheet of the workbook, \<open>find_header_row\<close> fails if and only if no row
  of the scanned block (at most \<open>max_scan_rows\<close> rows from \<open>start_row\<close> on) has "date"
  and at least 7 expected tokens, and the error it fails with is the header-not-found
  error carrying the sheet name, the file and the scanned range \<open>start_row\<close> to
  \<open>start_row + max_scan_rows - 1\<close>.
\<close>

theorem find_header_row_missing:
  assumes "map_of wb sheet_name = Some rows"
  shows "((\<exists>e. find_header_row X wb file_path sheet_name start_row max_scan_rows = Inl e) \<longleftrightarrow>
          (\<forall>row\<in>set (take max_scan_rows (drop start_row rows)). \<not> qualifies X row))
     \<and> (\<forall>e. find_header_row X wb file_path sheet_name start_row max_scan_rows = Inl e \<longrightarrow>
          e = HeaderNotFound sheet_name file_path (int start_row)
                (int start_row + int max_scan_rows - 1))"
proof -
  let ?chunk = "take max_scan_rows (drop start_row rows)"
  have "(\<exists>e. find_header_row X wb file_path sheet_name start_row max_scan_rows = Inl e) \<longleftrightarrow>
        scan_rows X 0 ?chunk = None"
    using assms
    by (auto simp: find_header_row_def read_excel_block_def split: option.splits)
  moreover have "\<forall>e. find_header_row X wb file_path sheet_name start_row max_scan_rows = Inl e \<longrightarrow>
          e = HeaderNotFound sheet_name file_path (int start_row)
                (int start_row + int max_scan_rows - 1)"
    using assms
    by (auto simp: find_header_row_def read_excel_block_def split: option.splits)
  ultimately show ?thesis
    by (simp only: scan_rows_None row_matches_qualifies)
qed

theorem find_header_row_missing_witness:
  "map_of decoy_wb ''FirmB'' = Some (replicate 4 [NaN] @ [decoy_row])
   \<and> find_header_row sample_lib decoy_wb ''banks.xlsx'' ''FirmB'' 3 20
       = Inl (HeaderNotFound ''FirmB'' ''banks.xlsx'' 3 22)
   \<and> \<not> qualifies sample_lib decoy_row"
proof -
  have f: "find_header_row sample_lib decoy_wb ''banks.xlsx'' ''FirmB'' 3 20
       = Inl (HeaderNotFound ''FirmB'' ''banks.xlsx'' 3 22)"
    by (rule find_header_row_FirmB)
  from find_header_row_missing[OF decoy_wb_FirmB, of sample_lib "''banks.xlsx''" 3 20] f
  have "\<forall>row\<in>set (take 20 (drop 3 (replicate 4 [NaN] @ [decoy_row]))). \<not> qualifies sample_lib row"
    by blast
  moreover have "decoy_row \<in> set (take 20 (drop 3 (replicate 4 [NaN] @ [decoy_row])))"
    by (simp add: numeral_eq_Suc)
  ultimately have "\<not> qualifies sample_lib decoy_row" by blast
  with f decoy_wb_FirmB show ?thesis by simp
qed

section \<open>Properties of \<open>read_firm_sheet\<close>\<close>

lemma expected_date_first:
  "EXPECTED_HEADERS = ''date'' # tl EXPECTED_HEADERS" "''date'' \<notin> set (tl EXPECTED_HEADERS)"
  by (simp_all add: EXPECTED_HEADERS_def)

lemma date_in_expected: "''date'' \<in> set EXPECTED_HEADERS"
  by (simp add: EXPECTED_HEADERS_def)

lemma keep_date_first:
  assumes "''date'' \<in> S"
  shows "''date'' # filter (\<lambda>c. c \<noteq> ''date'') (filter (\<lambda>c. c \<in> S) EXPECTED_HEADERS)
         = filter (\<lambda>c. c \<in> S) EXPECTED_HEADERS"
proof -
  have "filter (\<lambda>c. c \<noteq> ''date'') (filter (\<lambda>c. c \<in> S) (tl EXPECTED_HEADERS))
        = filter (\<lambda>c. c \<in> S) (tl EXPECTED_HEADERS)"
    using expected_date_first(2) by (intro filter_True) auto
  then show ?thesis
    using assms by (subst (1 2) expected_date_first(1)) simp
qed

lemma mset_map_filter:
  "mset (List.map_filter f xs) = image_mset (\<lambda>x. the (f x)) (filter_mset (\<lambda>x. f x \<noteq> None) (mset xs))"
  by (simp add: List.map_filter_def comp_def)

lemma clean_frame_Inr:
  assumes "clean_frame X file_path sheet_name df = Inr ft"
  defines "cols \<equiv> map (norm_header X) (labels df)"
  defines "dated \<equiv> dated_rows X (col_index cols ''date'') (body df)"
  defines "kept \<equiv> date_mask X (col_index cols ''date'') (body df)"
  shows "fcols ft = filter (\<lambda>c. c \<noteq> ''date'') (filter (\<lambda>c. c \<in> set cols) EXPECTED_HEADERS)"
    and "frows ft = sort_key fst (map (\<lambda>i. (fst (dated ! i), numeric_row X df cols (fcols ft) kept i))
                      [0..<length dated])"
    and "''date'' \<in> set cols"
  using assms(1) unfolding cols_def dated_def kept_def clean_frame_def Let_def
  by (auto split: if_splits)

lemma cell_of_map: "cell_of (map (\<lambda>c. (c, f c)) cols) k = (if k \<in> set cols then f k else NaN)"
  by (induction cols) (auto simp: cell_of_def)

lemma dated_rows_eq:
  "dated_rows X di rows =
     map (\<lambda>r. (the (to_datetime X (cell_at r di)), r))
       (filter (\<lambda>r. to_datetime X (cell_at r di) \<noteq> None) rows)"
  unfolding dated_rows_def List.map_filter_def
  by (intro map_cong refl) (auto simp: comp_def)

lemma clean_frame_schema_error:
  "clean_frame X file_path sheet_name df = Inl (SchemaError sheet_name file_path)
   \<longleftrightarrow> ''date'' \<notin> set (map (norm_header X) (labels df))"
proof (cases "''date'' \<in> set (map (norm_header X) (labels df))")
  case True
  with date_in_expected
  have k: "\<not> ''date'' \<notin> set (filter (\<lambda>c. c \<in> set (map (norm_header X) (labels df))) EXPECTED_HEADERS)"
    by simp
  have "clean_frame X file_path sheet_name df \<noteq> Inl (SchemaError sheet_name file_path)"
    unfolding clean_frame_def Let_def
    by (subst if_not_P, rule k) (simp only: sum.inject sum.distinct error.distinct split: if_splits, simp)
  with True show ?thesis by blast
next
  case False
  then have k: "''date'' \<notin> set (filter (\<lambda>c. c \<in> set (map (norm_header X) (labels df))) EXPECTED_HEADERS)"
    by simp
  have "clean_frame X file_path sheet_name df = Inl (SchemaError sheet_name file_path)"
    unfolding clean_frame_def Let_def
    by (subst if_P, rule k) (rule refl)
  with False show ?thesis by blast
qed

lemma clean_frame_isl_body:
  "isl (clean_frame X file_path sheet_name (df\<lparr>body := b\<rparr>)) = isl (clean_frame X file_path sheet_name df)"
  unfolding clean_frame_def Let_def by simp blast

lemma decoy_sheet_nth: "decoy_sheet ! 15 = header_row" "drop 16 decoy_sheet = decoy_data" "15 < length decoy_sheet"
  by (simp_all add: decoy_sheet_def numeral_eq_Suc decoy_data_def)

lemma read_excel_table_FirmA: "read_excel_table sample_lib decoy_wb ''FirmA'' 15 = Inr decoy_frame"
  using decoy_sheet_nth
  by (simp add: read_excel_table_def decoy_wb_FirmA decoy_frame_def sample_lib_def)

lemma clean_decoy: "clean_frame sample_lib f n decoy_frame = Inr decoy_table"
  unfolding clean_frame_def decoy_frame_def Let_def raw_frame.simps header_row_tokens
  by (simp add: EXPECTED_HEADERS_def decoy_table_def dated_rows_def List.map_filter_def decoy_data_def
        cell_at_def col_index_def sample_lib_def numeric_row_def coerce_numeric_def
        date_mask_def raw_column_def upt_rec)

lemma read_firm_sheet_FirmA:
  "read_firm_sheet sample_lib decoy_wb ''banks.xlsx'' ''FirmA'' 3 20 = Inr decoy_table"
  by (simp add: read_firm_sheet_def find_header_row_FirmA read_excel_table_FirmA clean_decoy)

lemma read_firm_sheet_clean:
  assumes "find_header_row X wb file_path sheet_name start_row max_scan_rows = Inr hdr"
    and "read_excel_table X wb sheet_name hdr = Inr df"
  shows "read_firm_sheet X wb file_path sheet_name start_row max_scan_rows
         = clean_frame X file_path sheet_name df"
  using assms by (simp add: read_firm_sheet_def)

lemma clean_frame_isl:
  "isl (clean_frame X file_path sheet_name df) \<longleftrightarrow>
     ''date'' \<notin> set (map (norm_header X) (labels df))
     \<or> (\<exists>c\<in>set EXPECTED_HEADERS. 1 < count_list (map (norm_header X) (labels df)) c)"
proof -
  let ?cols = "map (norm_header X) (labels df)"
  have "\<And>c. 1 < count_list ?cols c \<Longrightarrow> c \<in> set ?cols"
    by (metis count_list_0_iff not_less_zero)
  then have "(\<exists>c\<in>set (filter (\<lambda>c. c \<in> set ?cols) EXPECTED_HEADERS). 1 < count_list ?cols c)
        \<longleftrightarrow> (\<exists>c\<in>set EXPECTED_HEADERS. 1 < count_list ?cols c)"
    by auto
  moreover have "''date'' \<notin> set (filter (\<lambda>c. c \<in> set ?cols) EXPECTED_HEADERS)
        \<longleftrightarrow> ''date'' \<notin> set ?cols"
    using date_in_expected by simp
  ultimately show ?thesis
    unfolding clean_frame_def Let_def by (simp only: if_distrib[of isl] sum.disc if_bool_eq_disj) blast
qed

text \<open>
  Claim C2. With the header found and the table read, whether \<open>read_firm_sheet\<close> fails
  is decided by the labels alone (no date label, or a kept label twice), so no
  unparseable value raises an error. When it returns, it has dropped exactly the rows
  whose date cell fails to parse: the rows of the result are, with multiplicity, the
  rows with a parsed date, each keyed by that date and carrying every kept column. The
  cell of the \<open>i\<close>-th remaining row in a column is what \<open>to_numeric\<close> gives for that row of
  the column, NaN where it coerces; so every cell is a number or NaN, and no row is
  dropped for it.
\<close>

theorem read_firm_sheet_rows:
  assumes "find_header_row X wb file_path sheet_name start_row max_scan_rows = Inr hdr"
    and "read_excel_table X wb sheet_name hdr = Inr df"
  shows
   "(let cols = map (norm_header X) (labels df)
     in isl (read_firm_sheet X wb file_path sheet_name start_row max_scan_rows) \<longleftrightarrow>
          ''date'' \<notin> set cols \<or> (\<exists>c\<in>set EXPECTED_HEADERS. 1 < count_list cols c))
    \<and> (\<forall>ft. read_firm_sheet X wb file_path sheet_name start_row max_scan_rows = Inr ft \<longrightarrow>
        (let cols = map (norm_header X) (labels df);
             date_of = (\<lambda>r. to_datetime X (cell_at r (col_index cols ''date'')));
             kept = filter (\<lambda>r. date_of r \<noteq> None) (body df);
             mask = map (\<lambda>r. date_of r \<noteq> None) (body df);
             coerced = (\<lambda>c. map (\<lambda>v. case v of Some x \<Rightarrow> Num x | None \<Rightarrow> NaN)
                              (to_numeric X (map (\<lambda>r. cell_at r (col_index cols c)) (body df)) mask))
         in length (frows ft) = length kept
            \<and> mset (frows ft) =
                mset (map (\<lambda>i. (the (date_of (kept ! i)),
                                map (\<lambda>c. (c, cell_at (coerced c) i)) (fcols ft)))
                       [0..<length kept])
            \<and> (\<forall>row\<in>set (frows ft). \<forall>c\<in>set (fcols ft).
                  cell_of (snd row) c = NaN \<or> (\<exists>x. cell_of (snd row) c = Num x))))"
proof (intro conjI allI impI)
  show "let cols = map (norm_header X) (labels df)
     in isl (read_firm_sheet X wb file_path sheet_name start_row max_scan_rows) \<longleftrightarrow>
          ''date'' \<notin> set cols \<or> (\<exists>c\<in>set EXPECTED_HEADERS. 1 < count_list cols c)"
    unfolding read_firm_sheet_clean[OF assms] Let_def by (rule clean_frame_isl)
next
  fix ft
  assume "read_firm_sheet X wb file_path sheet_name start_row max_scan_rows = Inr ft"
  then have ok: "clean_frame X file_path sheet_name df = Inr ft"
    by (simp only: read_firm_sheet_clean[OF assms])
  note f = clean_frame_Inr[OF ok]
  define cols where "cols = map (norm_header X) (labels df)"
  define date_of where "date_of = (\<lambda>r. to_datetime X (cell_at r (col_index cols ''date'')))"
  define kept where "kept = filter (\<lambda>r. date_of r \<noteq> None) (body df)"
  define mask where "mask = map (\<lambda>r. date_of r \<noteq> None) (body df)"
  define coerced where "coerced =
    (\<lambda>c. map (\<lambda>v. case v of Some x \<Rightarrow> Num x | None \<Rightarrow> NaN)
           (to_numeric X (map (\<lambda>r. cell_at r (col_index cols c)) (body df)) mask))"
  define dated where "dated = dated_rows X (col_index cols ''date'') (body df)"
  have dr: "dated = map (\<lambda>r. (the (date_of r), r)) kept"
    unfolding dated_def kept_def date_of_def by (rule dated_rows_eq)
  have mk: "date_mask X (col_index cols ''date'') (body df) = mask"
    by (simp add: date_mask_def mask_def date_of_def)
  have nr: "\<And>i. numeric_row X df cols (fcols ft) mask i
              = map (\<lambda>c. (c, cell_at (coerced c) i)) (fcols ft)"
    by (simp add: numeric_row_def coerce_numeric_def raw_column_def coerced_def)
  have rows: "frows ft = sort_key fst (map (\<lambda>i. (fst (dated ! i),
                 map (\<lambda>c. (c, cell_at (coerced c) i)) (fcols ft))) [0..<length dated])"
    using f(2) unfolding cols_def[symmetric] dated_def[symmetric] mk nr .
  have len: "length dated = length kept" by (simp add: dr)
  have m: "mset (frows ft) =
      mset (map (\<lambda>i. (the (date_of (kept ! i)),
                      map (\<lambda>c. (c, cell_at (coerced c) i)) (fcols ft)))
             [0..<length kept])"
  proof -
    have "map (\<lambda>i. (fst (dated ! i), map (\<lambda>c. (c, cell_at (coerced c) i)) (fcols ft)))
            [0..<length dated]
        = map (\<lambda>i. (the (date_of (kept ! i)), map (\<lambda>c. (c, cell_at (coerced c) i)) (fcols ft)))
            [0..<length kept]"
      unfolding len by (intro map_cong refl) (simp add: dr)
    then show ?thesis unfolding rows by simp
  qed
  have l: "length (frows ft) = length kept"
    unfolding rows by (simp add: len)
  have num: "\<And>c i. cell_at (coerced c) i = NaN \<or> (\<exists>x. cell_at (coerced c) i = Num x)"
    by (auto simp: cell_at_def coerced_def split: option.splits)
  have cells: "\<forall>row\<in>set (frows ft). \<forall>c\<in>set (fcols ft).
                  cell_of (snd row) c = NaN \<or> (\<exists>x. cell_of (snd row) c = Num x)"
  proof (intro ballI)
    fix row c assume "row \<in> set (frows ft)" and c: "c \<in> set (fcols ft)"
    then have "\<exists>i. snd row = map (\<lambda>c. (c, cell_at (coerced c) i)) (fcols ft)"
      unfolding rows by (auto simp del: map_eq_conv)
    then obtain i where "snd row = map (\<lambda>c. (c, cell_at (coerced c) i)) (fcols ft)"
      by blast
    then have "cell_of (snd row) c = cell_at (coerced c) i"
      using c by (simp add: cell_of_map)
    with num[of c i] show "cell_of (snd row) c = NaN \<or> (\<exists>x. cell_of (snd row) c = Num x)"
      by simp
  qed
  show "let cols = map (norm_header X) (labels df);
             date_of = (\<lambda>r. to_datetime X (cell_at r (col_index cols ''date'')));
             kept = filter (\<lambda>r. date_of r \<noteq> None) (body df);
             mask = map (\<lambda>r. date_of r \<noteq> None) (body df);
             coerced = (\<lambda>c. map (\<lambda>v. case v of Some x \<Rightarrow> Num x | None \<Rightarrow> NaN)
                              (to_numeric X (map (\<lambda>r. cell_at r (col_index cols c)) (body df)) mask))
         in length (frows ft) = length kept
            \<and> mset (frows ft) =
                mset (map (\<lambda>i. (the (date_of (kept ! i)),
                                map (\<lambda>c. (c, cell_at (coerced c) i)) (fcols ft)))
                       [0..<length kept])
            \<and> (\<forall>row\<in>set (frows ft). \<forall>c\<in>set (fcols ft).
                  cell_of (snd row) c = NaN \<or> (\<exists>x. cell_of (snd row) c = Num x))"
    using l m cells
    unfolding Let_def cols_def date_of_def kept_def mask_def coerced_def
    by simp
qed

theorem read_firm_sheet_rows_witness:
  "find_header_row sample_lib decoy_wb ''banks.xlsx'' ''FirmA'' 3 20 = Inr 15
   \<and> read_excel_table sample_lib decoy_wb ''FirmA'' 15 = Inr decoy_frame
   \<and> read_firm_sheet sample_lib decoy_wb ''banks.xlsx'' ''FirmA'' 3 20 = Inr decoy_table
   \<and> length (frows decoy_table) = 2
   \<and> length (filter (\<lambda>r. to_datetime sample_lib
         (cell_at r (col_index (map (norm_header sample_lib) (labels decoy_frame)) ''date'')) \<noteq> None)
        (body decoy_frame)) = 2
   \<and> length (body decoy_frame) = 3"
proof -
  from read_firm_sheet_rows[OF find_header_row_FirmA read_excel_table_FirmA]
    read_firm_sheet_FirmA
  have "length (frows decoy_table) = length (filter (\<lambda>r. to_datetime sample_lib
         (cell_at r (col_index (map (norm_header sample_lib) (labels decoy_frame)) ''date'')) \<noteq> None)
        (body decoy_frame))"
    unfolding Let_def by blast
  moreover have "length (frows decoy_table) = 2" by (simp add: decoy_table_def)
  moreover have "length (body decoy_frame) = 3" by (simp add: decoy_frame_def decoy_data_def)
  ultimately show ?thesis
    using find_header_row_FirmA read_excel_table_FirmA read_firm_sheet_FirmA by simp
qed

text \<open>
  Claim C8. With the header found and the table read, \<open>read_firm_sheet\<close> fails with
  the schema error exactly when no label normalises to "date". When it returns, the
  kept columns are the expected-schema names that occur among the normalised labels, in
  the order of the expected schema (the date being the index), every row has exactly
  these columns and is indexed by the parsed date of a data row, and the rows are sorted
  ascending by date.
\<close>

theorem read_firm_sheet_schema:
  assumes "find_header_row X wb file_path sheet_name start_row max_scan_rows = Inr hdr"
    and "read_excel_table X wb sheet_name hdr = Inr df"
  shows
   "(read_firm_sheet X wb file_path sheet_name start_row max_scan_rows
       = Inl (SchemaError sheet_name file_path)
      \<longleftrightarrow> ''date'' \<notin> norm_header X ` set (labels df))
    \<and> (\<forall>ft. read_firm_sheet X wb file_path sheet_name start_row max_scan_rows = Inr ft \<longrightarrow>
         ''date'' # fcols ft = filter (\<lambda>c. c \<in> norm_header X ` set (labels df)) EXPECTED_HEADERS
         \<and> (\<forall>row\<in>set (frows ft). map fst (snd row) = fcols ft)
         \<and> (\<forall>row\<in>set (frows ft). \<exists>r\<in>set (body df).
                to_datetime X (cell_at r (col_index (map (norm_header X) (labels df)) ''date''))
                = Some (fst row))
         \<and> sorted (map fst (frows ft)))"
proof (intro conjI allI impI)
  show "read_firm_sheet X wb file_path sheet_name start_row max_scan_rows
       = Inl (SchemaError sheet_name file_path)
      \<longleftrightarrow> ''date'' \<notin> norm_header X ` set (labels df)"
    unfolding read_firm_sheet_clean[OF assms]
    using clean_frame_schema_error[of X file_path sheet_name df] by simp
next
  fix ft
  assume "read_firm_sheet X wb file_path sheet_name start_row max_scan_rows = Inr ft"
  then have ok: "clean_frame X file_path sheet_name df = Inr ft"
    by (simp only: read_firm_sheet_clean[OF assms])
  note f = clean_frame_Inr[OF ok]
  from f(3) have d: "''date'' \<in> set (map (norm_header X) (labels df))" .
  from keep_date_first[OF d] f(1)
  show "''date'' # fcols ft = filter (\<lambda>c. c \<in> norm_header X ` set (labels df)) EXPECTED_HEADERS"
    by simp
  show "\<forall>row\<in>set (frows ft). map fst (snd row) = fcols ft"
    unfolding f(2) by (auto simp: numeric_row_def comp_def)
  show "\<forall>row\<in>set (frows ft). \<exists>r\<in>set (body df).
                to_datetime X (cell_at r (col_index (map (norm_header X) (labels df)) ''date''))
                = Some (fst row)"
  proof
    fix row assume "row \<in> set (frows ft)"
    then obtain i where i: "i < length (dated_rows X (col_index (map (norm_header X) (labels df)) ''date'') (body df))"
      and r: "fst row = fst (dated_rows X (col_index (map (norm_header X) (labels df)) ''date'') (body df) ! i)"
      unfolding f(2) by auto
    from i have "dated_rows X (col_index (map (norm_header X) (labels df)) ''date'') (body df) ! i
        \<in> set (dated_rows X (col_index (map (norm_header X) (labels df)) ''date'') (body df))"
      by (rule nth_mem)
    with r show "\<exists>r\<in>set (body df).
                to_datetime X (cell_at r (col_index (map (norm_header X) (labels df)) ''date''))
                = Some (fst row)"
      by (auto simp: dated_rows_def List.map_filter_def)
  qed
  show "sorted (map fst (frows ft))"
    unfolding f(2) by simp
qed

theorem read_firm_sheet_schema_witness:
  "find_header_row sample_lib decoy_wb ''banks.xlsx'' ''FirmA'' 3 20 = Inr 15
   \<and> read_excel_table sample_lib decoy_wb ''FirmA'' 15 = Inr decoy_frame
   \<and> read_firm_sheet sample_lib decoy_wb ''banks.xlsx'' ''FirmA'' 3 20 = Inr decoy_table
   \<and> ''date'' # fcols decoy_table
       = filter (\<lambda>c. c \<in> norm_header sample_lib ` set (labels decoy_frame)) EXPECTED_HEADERS
   \<and> sorted (map fst (frows decoy_table))
   \<and> ''date'' \<in> norm_header sample_lib ` set (labels decoy_frame)"
proof -
  note t = read_firm_sheet_schema[OF find_header_row_FirmA read_excel_table_FirmA]
  from t read_firm_sheet_FirmA
  have "''date'' # fcols decoy_table
       = filter (\<lambda>c. c \<in> norm_header sample_lib ` set (labels decoy_frame)) EXPECTED_HEADERS"
    and "sorted (map fst (frows decoy_table))"
    by blast+
  moreover from t read_firm_sheet_FirmA
  have "''date'' \<in> norm_header sample_lib ` set (labels decoy_frame)"
    by (metis sum.distinct(1))
  ultimately show ?thesis
    using find_header_row_FirmA read_excel_table_FirmA read_firm_sheet_FirmA by simp
qed

section \<open>Properties of \<open>build_panel\<close>\<close>

lemma read_frames_all_ok:
  "\<forall>n\<in>set names. read_firm_sheet X wb p n HEADER_SCAN_START_ROW HEADER_SCAN_MAX_ROWS = Inr (T n)
   \<Longrightarrow> read_frames X wb p l names = Inr (map (\<lambda>n. tag_frame n l (T n)) names)"
  by (induction names) auto

lemma sector_not_expected: "''sector'' \<notin> set EXPECTED_HEADERS"
  by (simp add: EXPECTED_HEADERS_def)

lemma read_firm_sheet_Inr_cols:
  assumes "read_firm_sheet X wb p n s m = Inr ft"
  shows "set (fcols ft) \<subseteq> set EXPECTED_HEADERS"
    and "\<forall>row\<in>set (frows ft). map fst (snd row) = fcols ft"
proof -
  from assms obtain df where ok: "clean_frame X p n df = Inr ft"
    by (auto simp: read_firm_sheet_def split: sum.splits)
  note f = clean_frame_Inr[OF ok]
  from f(1) show "set (fcols ft) \<subseteq> set EXPECTED_HEADERS" by auto
  show "\<forall>row\<in>set (frows ft). map fst (snd row) = fcols ft"
    unfolding f(2) by (auto simp: numeric_row_def comp_def)
qed

lemma set_union_cols: "set (union_cols acc css) = set acc \<union> \<Union> (set ` set css)"
  by (induction css arbitrary: acc) auto

lemma cell_of_append_new:
  "k \<notin> fst ` set vs \<Longrightarrow> cell_of (vs @ [(k, v)]) k = v"
proof -
  assume "k \<notin> fst ` set vs"
  then have "map_of vs k = None" by (simp add: map_of_eq_None_iff)
  then show ?thesis by (simp add: cell_of_def map_add_def)
qed

lemma in_sum_list_mset:
  "x \<in># (\<Sum>n\<leftarrow>names. f n) \<longleftrightarrow> (\<exists>n\<in>set names. x \<in># f n)"
  by (induction names) auto

lemma size_sum_list_mset:
  "size (\<Sum>n\<leftarrow>names. (f n :: 'a multiset)) = (\<Sum>n\<leftarrow>names. size (f n))"
  by (induction names) auto

lemma cell_of_append_old:
  "k \<noteq> k' \<Longrightarrow> cell_of (vs @ [(k', v)]) k = cell_of vs k"
  by (simp add: cell_of_def map_of_append map_add_def split: option.splits)

lemma build_panel_ok:
  fixes l :: string and T :: "string \<Rightarrow> firm_table"
  assumes "list_firm_sheets wb \<noteq> []"
    and "\<forall>n\<in>set (list_firm_sheets wb).
           read_firm_sheet X wb p n HEADER_SCAN_START_ROW HEADER_SCAN_MAX_ROWS = Inr (T n)"
  defines "frames \<equiv> map (\<lambda>n. tag_frame n l (T n)) (list_firm_sheets wb)"
  defines "cols \<equiv> union_cols [] (map pcols frames)"
  shows "build_panel X wb p l =
           Inr \<lparr>pcols = cols,
                prows = sort_key fst (concat (map (\<lambda>f. map (\<lambda>(k, vs). (k, map (\<lambda>c. (c, cell_of vs c)) cols))
                                              (prows f)) frames))\<rparr>"
  using assms(1) read_frames_all_ok[OF assms(2), of l]
  unfolding build_panel_def concat_frames_def frames_def cols_def Let_def
  by simp

lemma read_frames_fail:
  "n \<in> set names \<Longrightarrow>
   read_firm_sheet X wb p n HEADER_SCAN_START_ROW HEADER_SCAN_MAX_ROWS = Inl e \<Longrightarrow>
   \<exists>e' m. m \<in> set names
     \<and> read_firm_sheet X wb p m HEADER_SCAN_START_ROW HEADER_SCAN_MAX_ROWS = Inl e'
     \<and> read_frames X wb p l names = Inl e'"
proof (induction names)
  case Nil
  then show ?case by simp
next
  case (Cons a names)
  show ?case
  proof (cases "read_firm_sheet X wb p a HEADER_SCAN_START_ROW HEADER_SCAN_MAX_ROWS")
    case (Inl e0)
    then show ?thesis by (intro exI[of _ e0] exI[of _ a]) simp
  next
    case (Inr ft)
    with Cons.prems have "n \<in> set names" by auto
    from Cons.IH[OF this Cons.prems(2)] obtain e' m where
      "m \<in> set names" "read_firm_sheet X wb p m HEADER_SCAN_START_ROW HEADER_SCAN_MAX_ROWS = Inl e'"
      "read_frames X wb p l names = Inl e'" by blast
    with Inr show ?thesis by (intro exI[of _ e'] exI[of _ m]) simp
  qed
qed

lemma find_header_row_deep:
  assumes "map_of wb n = Some (deep_sheet (header_row # data))"
  shows "find_header_row sample_lib wb f n HEADER_SCAN_START_ROW HEADER_SCAN_MAX_ROWS = Inr 2000"
  using assms
  by (simp add: find_header_row_def read_excel_block_def deep_sheet_def header_row_matches
        HEADER_SCAN_START_ROW_def HEADER_SCAN_MAX_ROWS_def)

lemma read_excel_table_deep:
  assumes "map_of wb n = Some (deep_sheet (header_row # data))"
  shows "read_excel_table sample_lib wb n 2000 = Inr \<lparr>labels = header_row, body = data\<rparr>"
  using assms
  by (simp add: read_excel_table_def deep_sheet_def nth_append sample_lib_def)

lemma find_header_row_deep_decoy:
  assumes "map_of wb n = Some (deep_sheet [decoy_row])"
  shows "find_header_row sample_lib wb f n HEADER_SCAN_START_ROW HEADER_SCAN_MAX_ROWS
         = Inl (HeaderNotFound n f 2000 4999)"
  using assms
  by (simp add: find_header_row_def read_excel_block_def deep_sheet_def decoy_row_fails
        HEADER_SCAN_START_ROW_def HEADER_SCAN_MAX_ROWS_def)

lemma read_firm_sheet_deep:
  assumes "map_of wb n = Some (deep_sheet (header_row # decoy_data))"
  shows "read_firm_sheet sample_lib wb f n HEADER_SCAN_START_ROW HEADER_SCAN_MAX_ROWS
         = Inr decoy_table"
  using find_header_row_deep[OF assms, of f] read_excel_table_deep[OF assms] clean_decoy[of f n]
  by (simp add: read_firm_sheet_def decoy_frame_def)

lemma read_firm_sheet_deep_decoy:
  assumes "map_of wb n = Some (deep_sheet [decoy_row])"
  shows "read_firm_sheet sample_lib wb f n HEADER_SCAN_START_ROW HEADER_SCAN_MAX_ROWS
         = Inl (HeaderNotFound n f 2000 4999)"
  using find_header_row_deep_decoy[OF assms, of f]
  by (simp add: read_firm_sheet_def)

text \<open>
  Claim C4. \<open>build_panel\<close> is fail-fast: when reading one of the firm sheets of the
  workbook fails, \<open>build_panel\<close> fails, with the error of a firm sheet that failed, and
  returns no panel at all.
\<close>

theorem build_panel_fail_fast:
  assumes "n \<in> set (list_firm_sheets wb)"
    and "read_firm_sheet X wb xlsx_path n HEADER_SCAN_START_ROW HEADER_SCAN_MAX_ROWS = Inl e"
  shows "(\<exists>e' m. m \<in> set (list_firm_sheets wb)
            \<and> read_firm_sheet X wb xlsx_path m HEADER_SCAN_START_ROW HEADER_SCAN_MAX_ROWS = Inl e'
            \<and> build_panel X wb xlsx_path sector_label = Inl e')
         \<and> (\<forall>p. build_panel X wb xlsx_path sector_label \<noteq> Inr p)"
proof -
  from read_frames_fail[OF assms, of sector_label] obtain e' m where
    m: "m \<in> set (list_firm_sheets wb)"
      "read_firm_sheet X wb xlsx_path m HEADER_SCAN_START_ROW HEADER_SCAN_MAX_ROWS = Inl e'"
      "read_frames X wb xlsx_path sector_label (list_firm_sheets wb) = Inl e'" by blast
  then have b: "build_panel X wb xlsx_path sector_label = Inl e'"
    by (simp add: build_panel_def)
  with m show ?thesis by auto
qed

theorem build_panel_fail_fast_witness:
  "''FirmB'' \<in> set (list_firm_sheets broken_wb)
   \<and> read_firm_sheet sample_lib broken_wb ''banks.xlsx'' ''FirmB''
         HEADER_SCAN_START_ROW HEADER_SCAN_MAX_ROWS
       = Inl (HeaderNotFound ''FirmB'' ''banks.xlsx'' 2000 4999)
   \<and> read_firm_sheet sample_lib broken_wb ''banks.xlsx'' ''FirmA''
         HEADER_SCAN_START_ROW HEADER_SCAN_MAX_ROWS
       = Inr decoy_table
   \<and> isl (build_panel sample_lib broken_wb ''banks.xlsx'' ''banks'')"
proof -
  have n: "''FirmB'' \<in> set (list_firm_sheets broken_wb)"
    by (simp add: list_firm_sheets_def broken_wb_def WORKSHEET_NAME_def)
  have b: "read_firm_sheet sample_lib broken_wb ''banks.xlsx'' ''FirmB''
         HEADER_SCAN_START_ROW HEADER_SCAN_MAX_ROWS
       = Inl (HeaderNotFound ''FirmB'' ''banks.xlsx'' 2000 4999)"
    by (rule read_firm_sheet_deep_decoy) (simp add: broken_wb_def)
  have a: "read_firm_sheet sample_lib broken_wb ''banks.xlsx'' ''FirmA''
         HEADER_SCAN_START_ROW HEADER_SCAN_MAX_ROWS
       = Inr decoy_table"
    by (rule read_firm_sheet_deep) (simp add: broken_wb_def)
  from build_panel_fail_fast[OF n b, of "''banks''"]
  have "isl (build_panel sample_lib broken_wb ''banks.xlsx'' ''banks'')"
    by auto
  with n a b show ?thesis by simp
qed

text \<open>
  Claim C5. For a workbook with at least one firm sheet, all of which are read,
  \<open>build_panel\<close> returns a panel whose rows are exactly the rows of all firm tables:
  their number is the sum of the firm tables' row counts and, as a multiset, they are
  the rows of each firm table keyed by (sheet name, date), with the cells of the firm
  table (NaN in a column the firm table does not have) and the sector label in the column
  \<open>sector\<close>. Every row has the caller's sector label, and the rows are sorted ascending
  by (firm, date).
\<close>

theorem build_panel_union_sorted:
  assumes "list_firm_sheets wb \<noteq> []"
    and "\<forall>n\<in>set (list_firm_sheets wb).
           read_firm_sheet X wb xlsx_path n HEADER_SCAN_START_ROW HEADER_SCAN_MAX_ROWS = Inr (T n)"
  shows "\<exists>p. build_panel X wb xlsx_path sector_label = Inr p
     \<and> length (prows p) = (\<Sum>n\<leftarrow>list_firm_sheets wb. length (frows (T n)))
     \<and> mset (prows p) =
         (\<Sum>n\<leftarrow>list_firm_sheets wb.
            image_mset
              (\<lambda>(t, vs). ((n, t),
                 map (\<lambda>c. (c, if c = ''sector'' then Str sector_label else cell_of vs c)) (pcols p)))
              (mset (frows (T n))))
     \<and> set (pcols p) = (\<Union>n\<in>set (list_firm_sheets wb). set (fcols (T n))) \<union> {''sector''}
     \<and> (\<forall>r\<in>set (prows p). cell_of (snd r) ''sector'' = Str sector_label)
     \<and> sorted (map fst (prows p))"
proof -
  define names where "names = list_firm_sheets wb"
  define frames where "frames = map (\<lambda>n. tag_frame n sector_label (T n)) names"
  define cols where "cols = union_cols [] (map pcols frames)"
  define fill where "fill = (\<lambda>(k :: string \<times> int, vs). (k, map (\<lambda>c. (c, cell_of vs c)) cols))"
  define p where "p = \<lparr>pcols = cols, prows = sort_key fst (concat (map (\<lambda>f. map fill (prows f)) frames))\<rparr>"
  have bp: "build_panel X wb xlsx_path sector_label = Inr p"
    using build_panel_ok[OF assms, of sector_label]
    unfolding p_def fill_def cols_def frames_def names_def by simp
  have ne: "names \<noteq> []" using assms(1) by (simp add: names_def)
  have keys: "\<And>n row. n \<in> set names \<Longrightarrow> row \<in> set (frows (T n)) \<Longrightarrow> ''sector'' \<notin> fst ` set (snd row)"
  proof -
    fix n row assume n: "n \<in> set names" and row: "row \<in> set (frows (T n))"
    from n assms(2) have r: "read_firm_sheet X wb xlsx_path n HEADER_SCAN_START_ROW HEADER_SCAN_MAX_ROWS = Inr (T n)"
      by (simp add: names_def)
    from read_firm_sheet_Inr_cols[OF r] row have "set (map fst (snd row)) \<subseteq> set EXPECTED_HEADERS"
      by auto
    with sector_not_expected show "''sector'' \<notin> fst ` set (snd row)" by auto
  qed
  have cols_set: "set cols = (\<Union>n\<in>set names. set (fcols (T n))) \<union> {''sector''}"
    using ne unfolding cols_def frames_def
    by (cases names) (auto simp: set_union_cols tag_frame_def)
  have sec: "''sector'' \<in> set cols" using cols_set by simp
  have rows: "mset (prows p) =
      (\<Sum>n\<leftarrow>names. image_mset (\<lambda>(t, vs). fill ((n, t), vs @ [(''sector'', Str sector_label)]))
                        (mset (frows (T n))))"
    unfolding p_def frames_def
    by (simp add: mset_concat comp_def tag_frame_def image_mset.compositionality case_prod_unfold
          multiset.map_comp)
  have fill_eq: "\<And>n t vs. n \<in> set names \<Longrightarrow> (t, vs) \<in> set (frows (T n)) \<Longrightarrow>
      fill ((n, t), vs @ [(''sector'', Str sector_label)])
      = ((n, t), map (\<lambda>c. (c, if c = ''sector'' then Str sector_label else cell_of vs c)) cols)"
  proof -
    fix n t vs assume "n \<in> set names" "(t, vs) \<in> set (frows (T n))"
    from keys[OF this] have "''sector'' \<notin> fst ` set vs" by simp
    then show "fill ((n, t), vs @ [(''sector'', Str sector_label)])
      = ((n, t), map (\<lambda>c. (c, if c = ''sector'' then Str sector_label else cell_of vs c)) cols)"
      by (auto simp: fill_def cell_of_append_new cell_of_append_old)
  qed
  have rows': "mset (prows p) =
      (\<Sum>n\<leftarrow>names. image_mset
          (\<lambda>(t, vs). ((n, t), map (\<lambda>c. (c, if c = ''sector'' then Str sector_label else cell_of vs c)) cols))
          (mset (frows (T n))))"
    unfolding rows
    by (intro arg_cong[where f=sum_list] map_cong refl image_mset_cong) (auto simp: fill_eq)
  have len: "length (prows p) = (\<Sum>n\<leftarrow>names. length (frows (T n)))"
  proof -
    have "length (prows p) = size (mset (prows p))" by simp
    also have "\<dots> = (\<Sum>n\<leftarrow>names. length (frows (T n)))"
      unfolding rows' by (simp add: size_sum_list_mset)
    finally show ?thesis .
  qed
  have sector: "\<forall>r\<in>set (prows p). cell_of (snd r) ''sector'' = Str sector_label"
  proof
    fix r assume "r \<in> set (prows p)"
    then have "r \<in># mset (prows p)" by simp
    then obtain n where "n \<in> set names" "r \<in># image_mset
          (\<lambda>(t, vs). ((n, t), map (\<lambda>c. (c, if c = ''sector'' then Str sector_label else cell_of vs c)) cols))
          (mset (frows (T n)))"
      unfolding rows' in_sum_list_mset by blast
    then obtain t vs where "r = ((n, t), map (\<lambda>c. (c, if c = ''sector'' then Str sector_label else cell_of vs c)) cols)"
      by auto
    then show "cell_of (snd r) ''sector'' = Str sector_label"
      using sec by (simp add: cell_of_map)
  qed
  have srt: "sorted (map fst (prows p))" by (simp add: p_def)
  have pc: "pcols p = cols" by (simp add: p_def)
  show ?thesis
    using bp len rows' cols_set sector srt unfolding pc names_def[symmetric]
    by (intro exI[of _ p]) (simp add: pc)
qed

theorem build_panel_union_sorted_witness:
  "list_firm_sheets panel_wb = [''FirmB'', ''FirmA'']
   \<and> read_firm_sheet sample_lib panel_wb ''banks.xlsx'' ''FirmB''
         HEADER_SCAN_START_ROW HEADER_SCAN_MAX_ROWS = Inr decoy_table
   \<and> read_firm_sheet sample_lib panel_wb ''banks.xlsx'' ''FirmA''
         HEADER_SCAN_START_ROW HEADER_SCAN_MAX_ROWS = Inr decoy_table
   \<and> (\<exists>p. build_panel sample_lib panel_wb ''banks.xlsx'' ''banks'' = Inr p
          \<and> length (prows p) = 4 \<and> sorted (map fst (prows p)))"
proof -
  have l: "list_firm_sheets panel_wb = [''FirmB'', ''FirmA'']"
    by (simp add: list_firm_sheets_def panel_wb_def WORKSHEET_NAME_def)
  have b: "read_firm_sheet sample_lib panel_wb ''banks.xlsx'' ''FirmB''
         HEADER_SCAN_START_ROW HEADER_SCAN_MAX_ROWS = Inr decoy_table"
    by (rule read_firm_sheet_deep) (simp add: panel_wb_def)
  have a: "read_firm_sheet sample_lib panel_wb ''banks.xlsx'' ''FirmA''
         HEADER_SCAN_START_ROW HEADER_SCAN_MAX_ROWS = Inr decoy_table"
    by (rule read_firm_sheet_deep) (simp add: panel_wb_def)
  have ne: "list_firm_sheets panel_wb \<noteq> []" by (simp add: l)
  have all: "\<forall>n\<in>set (list_firm_sheets panel_wb).
      read_firm_sheet sample_lib panel_wb ''banks.xlsx'' n
        HEADER_SCAN_START_ROW HEADER_SCAN_MAX_ROWS = Inr ((\<lambda>_. decoy_table) n)"
    using a b by (simp add: l)
  from build_panel_union_sorted[OF ne all, of "''banks''"]
  obtain p where "build_panel sample_lib panel_wb ''banks.xlsx'' ''banks'' = Inr p"
    "length (prows p) = (\<Sum>n\<leftarrow>list_firm_sheets panel_wb. length (frows decoy_table))"
    "sorted (map fst (prows p))"
    by blast
  moreover have "(\<Sum>n\<leftarrow>list_firm_sheets panel_wb. length (frows decoy_table)) = 4"
    by (simp add: l decoy_table_def)
  ultimately have "\<exists>p. build_panel sample_lib panel_wb ''banks.xlsx'' ''banks'' = Inr p
          \<and> length (prows p) = 4 \<and> sorted (map fst (prows p))"
    by auto
  with l a b show ?thesis by simp
qed

text \<open>
  Claim C10. For a workbook in which every sheet has the name of the excluded metadata
  sheet, \<open>list_firm_sheets\<close> is empty and \<open>build_panel\<close> returns no empty panel: it fails
  with the error of concatenating an empty list of firm tables.
\<close>

theorem build_panel_no_firm_sheets:
  assumes "\<forall>s\<in>set (map fst wb). s = WORKSHEET_NAME"
  shows "list_firm_sheets wb = []
     \<and> build_panel X wb xlsx_path sector_label = Inl (PandasError ''No objects to concatenate'')"
proof -
  from assms have "list_firm_sheets wb = []"
    by (auto simp: list_firm_sheets_def filter_empty_conv)
  then show ?thesis
    by (simp add: build_panel_def concat_frames_def)
qed

theorem build_panel_no_firm_sheets_witness:
  "set (map fst meta_wb) = {WORKSHEET_NAME}
   \<and> list_firm_sheets meta_wb = []
   \<and> build_panel sample_lib meta_wb ''banks.xlsx'' ''banks''
       = Inl (PandasError ''No objects to concatenate'')"
proof -
  have h: "\<forall>s\<in>set (map fst meta_wb). s = WORKSHEET_NAME"
    by (simp add: meta_wb_def WORKSHEET_NAME_def)
  have "set (map fst meta_wb) = {WORKSHEET_NAME}"
    by (simp add: meta_wb_def WORKSHEET_NAME_def)
  with build_panel_no_firm_sheets[OF h, of sample_lib "''banks.xlsx''" "''banks''"]
  show ?thesis by simp
qed

section \<open>Properties of \<open>add_esg_zscores\<close>\<close>

lemma cell_of_update: "cell_of (AList.update k v vs) c = (if c = k then v else cell_of vs c)"
  by (simp add: cell_of_def update_conv')

lemma length_column [simp]: "length (column df c) = length (prows df)"
  by (simp add: column_def)

lemma set_column_keys:
  "length vals = length (prows df) \<Longrightarrow> map fst (prows (set_column c vals df)) = map fst (prows df)"
proof -
  assume len: "length vals = length (prows df)"
  have "map fst (prows (set_column c vals df)) = map fst (map fst (zip (prows df) vals))"
    by (simp add: set_column_def case_prod_unfold comp_def)
  also have "\<dots> = map fst (prows df)"
    using len by (simp only: map_fst_zip)
  finally show ?thesis .
qed

lemma set_column_column:
  assumes "length vals = length (prows df)"
  shows "column (set_column c vals df) c' = (if c' = c then vals else column df c')"
proof -
  have "\<forall>i<length vals.
      column (set_column c vals df) c' ! i = (if c' = c then vals else column df c') ! i"
    using assms by (auto simp: column_def set_column_def cell_of_update case_prod_unfold)
  moreover have "length (column (set_column c vals df) c') = length vals"
    using assms by (simp add: column_def set_column_def)
  ultimately show ?thesis
    using assms by (intro nth_equalityI) auto
qed

lemma groupby_transform_length:
  "groupby_transform f keys xs = Some vals \<Longrightarrow> length vals = length xs"
  by (auto simp: groupby_transform_def Let_def split: if_splits)

lemma add_zscore_Inr:
  assumes "add_zscore X df col g = Inr df'"
  shows "\<exists>vals. length vals = length (prows df) \<and> df' = set_column (col @ ''_z'') vals df"
proof -
  from assms obtain keys vals where
    v: "groupby_transform (zscore X (column df col)) keys (column df col) = Some vals"
    and d: "df' = set_column (col @ ''_z'') vals df"
    unfolding add_zscore_def by (auto split: sum.splits if_splits option.splits)
  from groupby_transform_length[OF v] have "length vals = length (prows df)" by simp
  with d show ?thesis by blast
qed

lemma add_esg_zscores_frame:
  assumes "add_esg_zscores X df cs g = Inr df'"
  shows "map fst (prows df') = map fst (prows df)
       \<and> (\<forall>c. c \<notin> (\<lambda>x. x @ ''_z'') ` set cs \<longrightarrow> column df' c = column df c)
       \<and> (\<exists>new. pcols df' = pcols df @ new \<and> distinct new
              \<and> set new = (\<lambda>x. x @ ''_z'') ` set cs - set (pcols df))"
  using assms
proof (induction cs arbitrary: df)
  case Nil
  then show ?case by simp
next
  case (Cons c cs)
  from Cons.prems obtain df1 where s1: "add_zscore X df c g = Inr df1"
    and s2: "add_esg_zscores X df1 cs g = Inr df'"
    by (auto split: sum.splits)
  from add_zscore_Inr[OF s1] obtain vals where
    len: "length vals = length (prows df)" and df1: "df1 = set_column (c @ ''_z'') vals df"
    by blast
  have k1: "map fst (prows df1) = map fst (prows df)"
    unfolding df1 by (rule set_column_keys[OF len])
  have c1: "\<And>c'. c' \<noteq> c @ ''_z'' \<Longrightarrow> column df1 c' = column df c'"
    unfolding df1 by (simp add: set_column_column[OF len])
  have p1: "pcols df1 = (if c @ ''_z'' \<in> set (pcols df) then pcols df else pcols df @ [c @ ''_z''])"
    unfolding df1 by (simp add: set_column_def)
  note ih = Cons.IH[OF s2]
  from ih obtain new1 where n1: "pcols df' = pcols df1 @ new1" "distinct new1"
    "set new1 = (\<lambda>x. x @ ''_z'') ` set cs - set (pcols df1)"
    by blast
  have "\<exists>new. pcols df' = pcols df @ new \<and> distinct new
              \<and> set new = (\<lambda>x. x @ ''_z'') ` set (c # cs) - set (pcols df)"
  proof (cases "c @ ''_z'' \<in> set (pcols df)")
    case True
    with p1 n1 show ?thesis by (intro exI[of _ new1]) auto
  next
    case False
    with p1 n1 show ?thesis by (intro exI[of _ "(c @ ''_z'') # new1"]) auto
  qed
  moreover have "map fst (prows df') = map fst (prows df)"
    using ih k1 by simp
  moreover have "\<forall>c'. c' \<notin> (\<lambda>x. x @ ''_z'') ` set (c # cs) \<longrightarrow> column df' c' = column df c'"
    using ih c1 by auto
  ultimately show ?case by blast
qed

lemma add_esg_zscores_fresh:
  assumes "add_esg_zscores X df esg_cols group_col = Inr df'"
    and "\<forall>c\<in>set esg_cols. c @ ''_z'' \<notin> set (pcols df)"
  shows "map fst (prows df') = map fst (prows df)
       \<and> (\<forall>c\<in>set (pcols df). column df' c = column df c)
       \<and> (\<exists>new. pcols df' = pcols df @ new \<and> distinct new
              \<and> set new = (\<lambda>c. c @ ''_z'') ` set esg_cols)"
proof -
  note f = add_esg_zscores_frame[OF assms(1)]
  from assms(2) have fresh: "(\<lambda>x. x @ ''_z'') ` set esg_cols - set (pcols df) = (\<lambda>x. x @ ''_z'') ` set esg_cols"
    by auto
  from assms(2) have "\<forall>c\<in>set (pcols df). c \<notin> (\<lambda>x. x @ ''_z'') ` set esg_cols"
    by auto
  with f fresh show ?thesis by auto
qed

lemma read_frames_Inr_frames:
  "read_frames X wb p l names = Inr frames \<Longrightarrow>
   \<forall>f\<in>set frames. \<exists>n ft.
     read_firm_sheet X wb p n HEADER_SCAN_START_ROW HEADER_SCAN_MAX_ROWS = Inr ft
     \<and> f = tag_frame n l ft"
proof (induction names arbitrary: frames)
  case Nil
  then show ?case by simp
next
  case (Cons a names)
  from Cons.prems obtain ft rest where
    r: "read_firm_sheet X wb p a HEADER_SCAN_START_ROW HEADER_SCAN_MAX_ROWS = Inr ft"
    and rs: "read_frames X wb p l names = Inr rest"
    and fr: "frames = tag_frame a l ft # rest"
    by (auto split: sum.splits)
  from Cons.IH[OF rs] r fr show ?case by auto
qed

lemma build_panel_columns:
  assumes "build_panel X wb p l = Inr df"
  shows "set (pcols df) \<subseteq> set EXPECTED_HEADERS \<union> {''sector''}"
proof -
  from assms obtain frames where
    rf: "read_frames X wb p l (list_firm_sheets wb) = Inr frames"
    and pc: "pcols df = union_cols [] (map pcols frames)"
    unfolding build_panel_def concat_frames_def Let_def
    by (auto split: sum.splits if_splits)
  have "\<forall>f\<in>set frames. set (pcols f) \<subseteq> set EXPECTED_HEADERS \<union> {''sector''}"
  proof
    fix f assume "f \<in> set frames"
    with read_frames_Inr_frames[OF rf] obtain n ft where
      r: "read_firm_sheet X wb p n HEADER_SCAN_START_ROW HEADER_SCAN_MAX_ROWS = Inr ft"
      and f: "f = tag_frame n l ft" by blast
    from read_firm_sheet_Inr_cols(1)[OF r] f
    show "set (pcols f) \<subseteq> set EXPECTED_HEADERS \<union> {''sector''}"
      by (auto simp: tag_frame_def)
  qed
  then show ?thesis unfolding pc by (auto simp: set_union_cols)
qed

lemma no_z_suffix:
  assumes "h \<in> set EXPECTED_HEADERS \<union> {''sector''}"
  shows "h \<noteq> c @ ''_z''"
proof
  assume "h = c @ ''_z''"
  then have "take 2 (rev h) = ''z_''" by simp
  with assms show False
    by (auto simp: EXPECTED_HEADERS_def)
qed

lemma build_panel_no_z:
  assumes "build_panel X wb p l = Inr df"
  shows "c @ ''_z'' \<notin> set (pcols df)"
  using build_panel_columns[OF assms] no_z_suffix[of "c @ ''_z''" c] by blast

text \<open>
  Claim C9. For every panel that \<open>build_panel\<close> returns and every list of target
  columns, when \<open>add_esg_zscores\<close> returns, the returned table has the rows of the input
  in the same order, every original column with its values unchanged and in its place,
  and after them exactly one new column per distinct target column, named by the
  target's name followed by \<open>_z\<close>; no original column is modified or removed.
\<close>

theorem add_esg_zscores_additive:
  assumes "build_panel X wb xlsx_path sector_label = Inr df"
    and "add_esg_zscores X df esg_cols group_col = Inr df'"
  shows "map fst (prows df') = map fst (prows df)
       \<and> (\<forall>c\<in>set (pcols df). column df' c = column df c)
       \<and> (\<exists>new. pcols df' = pcols df @ new \<and> distinct new
              \<and> set new = (\<lambda>c. c @ ''_z'') ` set esg_cols)"
proof -
  have "\<forall>c\<in>set esg_cols. c @ ''_z'' \<notin> set (pcols df)"
    using build_panel_no_z[OF assms(1)] by blast
  from add_esg_zscores_fresh[OF assms(2) this] show ?thesis .
qed

lemma zscore_sample:
  "\<exists>ys. zscore sample_lib col x = Some ys \<and> length ys = length x"
  by (simp add: zscore_def sample_lib_def exact_div_def exact_sub_def)

lemma groupby_transform_total:
  assumes "\<And>x. \<exists>ys. f x = Some ys \<and> length ys = length x"
  shows "\<exists>vals. groupby_transform f keys xs = Some vals"
proof -
  have "\<forall>i\<in>set [0..<length xs]. isna (keys ! i) \<or>
          (case f (map (\<lambda>j. xs ! j) (group_rows keys (length xs) i)) of
             Some ys \<Rightarrow> length ys = length (group_rows keys (length xs) i)
           | None \<Rightarrow> False)"
  proof
    fix i
    from assms[of "map (\<lambda>j. xs ! j) (group_rows keys (length xs) i)"]
    show "isna (keys ! i) \<or>
          (case f (map (\<lambda>j. xs ! j) (group_rows keys (length xs) i)) of
             Some ys \<Rightarrow> length ys = length (group_rows keys (length xs) i)
           | None \<Rightarrow> False)"
      by auto
  qed
  then show ?thesis
    unfolding groupby_transform_def Let_def by (subst if_P) blast+
qed

lemma add_zscore_sample:
  assumes "g \<in> set (pcols df)" "g \<noteq> ''firm''" "g \<noteq> ''date''" "c \<in> set (pcols df)"
  shows "\<exists>df'. add_zscore sample_lib df c g = Inr df' \<and> set (pcols df) \<subseteq> set (pcols df')"
proof -
  from assms have k: "group_keys df g = Inr (column df g)"
    by (simp add: group_keys_def)
  from groupby_transform_total[of "zscore sample_lib (column df c)", OF zscore_sample]
  obtain vals where
    "groupby_transform (zscore sample_lib (column df c)) (column df g) (column df c) = Some vals"
    by blast
  with k assms(4) have "add_zscore sample_lib df c g = Inr (set_column (c @ ''_z'') vals df)"
    by (simp add: add_zscore_def)
  moreover have "set (pcols df) \<subseteq> set (pcols (set_column (c @ ''_z'') vals df))"
    by (auto simp: set_column_def)
  ultimately show ?thesis by blast
qed

lemma add_esg_zscores_sample:
  assumes "g \<in> set (pcols df)" "g \<noteq> ''firm''" "g \<noteq> ''date''" "set cs \<subseteq> set (pcols df)"
  shows "\<exists>df'. add_esg_zscores sample_lib df cs g = Inr df'"
  using assms
proof (induction cs arbitrary: df)
  case Nil
  then show ?case by simp
next
  case (Cons c cs)
  from Cons.prems have "c \<in> set (pcols df)" by simp
  from add_zscore_sample[OF Cons.prems(1-3) this] obtain df1 where
    s1: "add_zscore sample_lib df c g = Inr df1" and sub: "set (pcols df) \<subseteq> set (pcols df1)"
    by blast
  from sub Cons.prems have "g \<in> set (pcols df1)" "set cs \<subseteq> set (pcols df1)" by auto
  from Cons.IH[OF this(1) Cons.prems(2,3) this(2)] obtain df' where
    "add_esg_zscores sample_lib df1 cs g = Inr df'" by blast
  with s1 show ?case by simp
qed

theorem add_esg_zscores_additive_witness:
  "\<exists>p p'. build_panel sample_lib panel_wb ''banks.xlsx'' ''banks'' = Inr p
     \<and> add_esg_zscores sample_lib p [''bloomberg_esg'', ''refinitiv_esg''] ''sector'' = Inr p'
     \<and> map fst (prows p') = map fst (prows p)
     \<and> column p' ''bloomberg_esg'' = column p ''bloomberg_esg''
     \<and> column p' ''sector'' = column p ''sector''
     \<and> set (pcols p') = set (pcols p) \<union> {''bloomberg_esg_z'', ''refinitiv_esg_z''}"
proof -
  have l: "list_firm_sheets panel_wb = [''FirmB'', ''FirmA'']"
    by (simp add: list_firm_sheets_def panel_wb_def WORKSHEET_NAME_def)
  have b: "read_firm_sheet sample_lib panel_wb ''banks.xlsx'' ''FirmB''
         HEADER_SCAN_START_ROW HEADER_SCAN_MAX_ROWS = Inr decoy_table"
    by (rule read_firm_sheet_deep) (simp add: panel_wb_def)
  have a: "read_firm_sheet sample_lib panel_wb ''banks.xlsx'' ''FirmA''
         HEADER_SCAN_START_ROW HEADER_SCAN_MAX_ROWS = Inr decoy_table"
    by (rule read_firm_sheet_deep) (simp add: panel_wb_def)
  have ne: "list_firm_sheets panel_wb \<noteq> []" by (simp add: l)
  have all: "\<forall>n\<in>set (list_firm_sheets panel_wb).
      read_firm_sheet sample_lib panel_wb ''banks.xlsx'' n
        HEADER_SCAN_START_ROW HEADER_SCAN_MAX_ROWS = Inr ((\<lambda>_. decoy_table) n)"
    using a b by (simp add: l)
  from build_panel_ok[OF ne all, of "''banks''"] obtain p where
    p: "build_panel sample_lib panel_wb ''banks.xlsx'' ''banks'' = Inr p"
    and pc: "pcols p = union_cols [] (map pcols
               (map (\<lambda>n. tag_frame n ''banks'' decoy_table) (list_firm_sheets panel_wb)))"
    by simp
  have cols: "''sector'' \<in> set (pcols p)" "''bloomberg_esg'' \<in> set (pcols p)"
    "''refinitiv_esg'' \<in> set (pcols p)"
    unfolding pc l
    by (simp_all add: set_union_cols tag_frame_def decoy_table_def EXPECTED_HEADERS_def)
  then have "set [''bloomberg_esg'', ''refinitiv_esg''] \<subseteq> set (pcols p)" by simp
  from add_esg_zscores_sample[OF cols(1) _ _ this] obtain p' where
    p': "add_esg_zscores sample_lib p [''bloomberg_esg'', ''refinitiv_esg''] ''sector'' = Inr p'"
    by auto
  from add_esg_zscores_additive[OF p p'] obtain new where
    k: "map fst (prows p') = map fst (prows p)"
    and c: "\<forall>c\<in>set (pcols p). column p' c = column p c"
    and n: "pcols p' = pcols p @ new"
      "set new = (\<lambda>c. c @ ''_z'') ` set [''bloomberg_esg'', ''refinitiv_esg'']"
    by blast
  from c cols have "column p' ''bloomberg_esg'' = column p ''bloomberg_esg''"
    "column p' ''sector'' = column p ''sector''" by blast+
  moreover from n have "set (pcols p') = set (pcols p) \<union> {''bloomberg_esg_z'', ''refinitiv_esg_z''}"
    by auto
  ultimately show ?thesis using p p' k by blast
qed

end
